theory Spec2Isabelle
  imports Complex_Main "HOL-Library.Sublist"
begin

unbundle bit_operations_syntax

section \<open>Constants\<close>

text \<open>
  The source is the single file \<^verbatim>\<open>client-mario-landv1gb.py\<close>. Python's numbers are
  modelled exactly: the counters of \<^verbatim>\<open>GameState\<close> are \<open>int\<close>, and every coordinate,
  size and velocity is a \<open>rat\<close> (the source mixes \<^verbatim>\<open>int\<close> and \<^verbatim>\<open>float\<close> in these
  fields; rounding of the floats is not modelled). Drawing and sound synthesis are left
  out; a played effect is recorded as an entry of a log.
\<close>

definition GB_W :: rat where "GB_W = 160"
definition GB_H :: rat where "GB_H = 144"
definition GRAVITY :: rat where "GRAVITY = 1 / 4"
definition PLAYER_ACCEL :: rat where "PLAYER_ACCEL = 1 / 10"
definition PLAYER_DECEL :: rat where "PLAYER_DECEL = 3 / 20"
definition PLAYER_MAX_SPEED :: rat where "PLAYER_MAX_SPEED = 8 / 5"
definition JUMP_IMPULSE :: rat where "JUMP_IMPULSE = 9 / 2"

text \<open>\<^verbatim>\<open>SCROLL_EDGE = GB_W // 2\<close>, the floor division of two Python ints.\<close>

definition SCROLL_EDGE :: rat where "SCROLL_EDGE = of_int \<lfloor>GB_W / 2\<rfloor>"

section \<open>Data model\<close>

datatype sfx = SfxJump | SfxCoin | SfxStomp | SfxVictory | SfxDamage | SfxGameover

datatype mode = MENU | PLAYING | GAME_OVER | VICTORY

datatype key = K_ESCAPE | K_RETURN | K_OTHER

datatype event = QUIT | KEYDOWN key | OTHER_EVENT

text \<open>The entries of \<^verbatim>\<open>pygame.key.get_pressed()\<close> that \<^verbatim>\<open>Player.apply_input\<close> reads.\<close>

record keys =
  K_LEFT :: bool
  K_a :: bool
  K_RIGHT :: bool
  K_d :: bool
  K_z :: bool
  K_SPACE :: bool

text \<open>
  \<^verbatim>\<open>Player\<close> (through \<^verbatim>\<open>SpriteBase\<close>), \<^verbatim>\<open>Platform\<close>, \<^verbatim>\<open>Coin\<close> and \<^verbatim>\<open>Goal\<close> all carry
  the attributes \<^verbatim>\<open>x, y, width, height\<close>; the records share them through a common root,
  so that the bounding-box test the source writes out four times is one definition.
\<close>

record rect =
  x :: rat
  y :: rat
  width :: rat
  height :: rat

record sprite_base = rect +
  vel_x :: rat
  vel_y :: rat
  active :: bool

record player = sprite_base +
  grounded :: bool
  anim_timer :: int
  frame :: int
  alive :: bool

type_synonym platform = rect

record coin = rect +
  frame :: rat

record goal = rect +
  anim :: int

record camera =
  scroll_x :: rat

record game_state =
  state :: mode
  score :: int
  lives :: int
  coins :: int
  time :: int
  timer :: int

text \<open>
  The local variables of \<^verbatim>\<open>main\<close> together with the module-level \<^verbatim>\<open>CAMERA\<close>, and the
  log of the sound effects played so far (oldest first).
\<close>

record world =
  w_game_state :: game_state
  w_platforms :: "platform list"
  w_coins :: "coin list"
  w_goal :: goal
  w_player :: player
  w_camera :: camera
  w_running :: bool
  w_sounds :: "sfx list"

section \<open>Constructors\<close>

definition Player :: "rat \<Rightarrow> rat \<Rightarrow> player" where
  "Player x0 y0 = \<lparr>x = x0, y = y0, width = 8, height = 16, vel_x = 0, vel_y = 0, active = True,
     grounded = False, anim_timer = 0, player.frame = 0, alive = True\<rparr>"

definition Platform :: "rat \<Rightarrow> rat \<Rightarrow> rat \<Rightarrow> rat \<Rightarrow> platform" where
  "Platform x0 y0 w0 h0 = \<lparr>x = x0, y = y0, width = w0, height = h0\<rparr>"

definition Coin :: "rat \<Rightarrow> rat \<Rightarrow> coin" where
  "Coin x0 y0 = \<lparr>x = x0, y = y0, width = 8, height = 8, coin.frame = 0\<rparr>"

definition Goal :: "rat \<Rightarrow> rat \<Rightarrow> goal" where
  "Goal x0 y0 = \<lparr>x = x0, y = y0, width = 16, height = 32, anim = 0\<rparr>"

definition Camera :: camera where
  "Camera = \<lparr>scroll_x = 0\<rparr>"

definition GameState :: game_state where
  "GameState = \<lparr>state = MENU, score = 0, lives = 3, coins = 0, time = 400, timer = 0\<rparr>"

definition create_level_1_1 :: "platform list \<times> coin list \<times> goal" where
  "create_level_1_1 =
     ([Platform 0 128 200 16, Platform 224 128 200 16, Platform 448 128 400 16,
       Platform 160 96 32 16, Platform 256 80 48 16, Platform 352 64 32 16,
       Platform 480 96 64 16, Platform 600 112 32 16],
      [Coin 176 80, Coin 272 64, Coin 368 48, Coin 496 80, Coin 512 80, Coin 616 96],
      Goal 800 96)"

section \<open>Collision test and camera\<close>

text \<open>
  The test \<^verbatim>\<open>a.x < b.x + b.width and a.x + a.width > b.x and a.y < b.y + b.height and
  a.y + a.height > b.y\<close>, which the source inlines in both loops of \<^verbatim>\<open>Player.physics\<close>
  and in the coin and goal checks of \<^verbatim>\<open>main\<close>.
\<close>

definition overlaps :: "'a rect_scheme \<Rightarrow> 'b rect_scheme \<Rightarrow> bool" where
  "overlaps a b \<longleftrightarrow>
     x a < x b + width b \<and> x a + width a > x b \<and> y a < y b + height b \<and> y a + height a > y b"

definition camera_update :: "camera \<Rightarrow> rat \<Rightarrow> camera" where
  "camera_update cam target_x =
     (let cam1 = (if target_x - scroll_x cam > SCROLL_EDGE
                  then cam\<lparr>scroll_x := target_x - SCROLL_EDGE\<rparr> else cam)
      in if scroll_x cam1 < 0 then cam1\<lparr>scroll_x := 0\<rparr> else cam1)"

section \<open>Player\<close>

text \<open>\<^verbatim>\<open>Player.apply_input\<close>; the second component is the sounds it plays.\<close>

definition apply_input :: "keys \<Rightarrow> player \<Rightarrow> player \<times> sfx list" where
  "apply_input ks p =
     (if \<not> alive p then (p, [])
      else
        let p1 = (if K_LEFT ks \<or> K_a ks
                  then p\<lparr>vel_x := max (vel_x p - PLAYER_ACCEL) (- PLAYER_MAX_SPEED)\<rparr>
                  else if K_RIGHT ks \<or> K_d ks
                  then p\<lparr>vel_x := min (vel_x p + PLAYER_ACCEL) PLAYER_MAX_SPEED\<rparr>
                  else if vel_x p > 0 then p\<lparr>vel_x := max 0 (vel_x p - PLAYER_DECEL)\<rparr>
                  else if vel_x p < 0 then p\<lparr>vel_x := min 0 (vel_x p + PLAYER_DECEL)\<rparr>
                  else p)
        in if (K_z ks \<or> K_SPACE ks) \<and> grounded p1
           then (p1\<lparr>vel_y := - JUMP_IMPULSE, grounded := False\<rparr>, [SfxJump])
           else (p1, []))"

text \<open>The first loop of \<^verbatim>\<open>Player.physics\<close>: push-out along X, platform by platform.\<close>

fun physics_resolve_x :: "player \<Rightarrow> platform list \<Rightarrow> player" where
  "physics_resolve_x p [] = p"
| "physics_resolve_x p (pl # pls) =
     physics_resolve_x
       (if overlaps p pl
        then (if vel_x p > 0 then p\<lparr>x := x pl - width p\<rparr>
              else if vel_x p < 0 then p\<lparr>x := x pl + width pl\<rparr>
              else p)\<lparr>vel_x := 0\<rparr>
        else p) pls"

text \<open>The second loop of \<^verbatim>\<open>Player.physics\<close>: push-out along Y, platform by platform.\<close>

fun physics_resolve_y :: "player \<Rightarrow> platform list \<Rightarrow> player" where
  "physics_resolve_y p [] = p"
| "physics_resolve_y p (pl # pls) =
     physics_resolve_y
       (if overlaps p pl
        then (if vel_y p > 0 then p\<lparr>y := y pl - height p, vel_y := 0, grounded := True\<rparr>
              else if vel_y p < 0 then p\<lparr>y := y pl + height pl, vel_y := 0\<rparr>
              else p)
        else p) pls"

text \<open>
  \<^verbatim>\<open>Player.physics\<close> up to the end of its first loop (gravity, horizontal move,
  horizontal push-out), then the vertical move with the reset of \<^verbatim>\<open>grounded\<close>, which
  is the state the second loop starts from, then the whole method.
\<close>

definition physics_horizontal :: "player \<Rightarrow> platform list \<Rightarrow> player" where
  "physics_horizontal p pls =
     (let p1 = p\<lparr>vel_y := vel_y p + GRAVITY\<rparr>;
          p2 = p1\<lparr>x := x p1 + vel_x p1\<rparr>
      in physics_resolve_x p2 pls)"

definition physics_move_y :: "player \<Rightarrow> player" where
  "physics_move_y p = (p\<lparr>y := y p + vel_y p\<rparr>)\<lparr>grounded := False\<rparr>"

definition physics :: "player \<Rightarrow> platform list \<Rightarrow> player" where
  "physics p pls = physics_resolve_y (physics_move_y (physics_horizontal p pls)) pls"

text \<open>\<^verbatim>\<open>Player.update\<close>, with the polled key state as an argument.\<close>

definition player_update :: "keys \<Rightarrow> player \<Rightarrow> platform list \<Rightarrow> player \<times> sfx list" where
  "player_update ks p pls =
     (let (p1, snd1) = apply_input ks p;
          p2 = physics p1 pls;
          p3 = (if alive p2
                then let p2a = p2\<lparr>anim_timer := anim_timer p2 + 1\<rparr>
                     in if \<bar>vel_x p2a\<bar> > 1 / 5 \<and> grounded p2a
                        then (if anim_timer p2a mod 8 = 0
                              then p2a\<lparr>player.frame := player.frame p2a XOR 1\<rparr> else p2a)
                        else p2a\<lparr>player.frame := 0\<rparr>
                else p2)
      in (p3, snd1))"

section \<open>Coins\<close>

text \<open>\<^verbatim>\<open>Coin.update\<close>: \<^verbatim>\<open>(self.frame + 0.15) % 4\<close>, Python's remainder with a positive modulus.\<close>

definition coin_update :: "coin \<Rightarrow> coin" where
  "coin_update c =
     c\<lparr>coin.frame := (coin.frame c + 3 / 20) - 4 * of_int \<lfloor>(coin.frame c + 3 / 20) / 4\<rfloor>\<rparr>"

section \<open>Game state and the main loop\<close>

definition reset_level :: "game_state \<Rightarrow> game_state" where
  "reset_level gs = gs\<lparr>score := 0, coins := 0, time := 400, timer := 0\<rparr>"

text \<open>The state of \<^verbatim>\<open>main\<close> when it enters its loop.\<close>

definition initial_world :: world where
  "initial_world =
     (case create_level_1_1 of (pls, cs, g) \<Rightarrow>
        \<lparr>w_game_state = GameState, w_platforms = pls, w_coins = cs, w_goal = g,
         w_player = Player 32 100, w_camera = Camera, w_running = True, w_sounds = []\<rparr>)"

text \<open>The body of \<^verbatim>\<open>for event in pygame.event.get()\<close>.\<close>

fun handle_event :: "event \<Rightarrow> world \<Rightarrow> world" where
  "handle_event QUIT w = w\<lparr>w_running := False\<rparr>"
| "handle_event (KEYDOWN K_ESCAPE) w =
     (if state (w_game_state w) = PLAYING
      then w\<lparr>w_game_state := (w_game_state w)\<lparr>state := MENU\<rparr>\<rparr>
      else if state (w_game_state w) \<in> {MENU, GAME_OVER, VICTORY}
      then w\<lparr>w_running := False\<rparr>
      else w)"
| "handle_event (KEYDOWN K_RETURN) w =
     (if state (w_game_state w) \<in> {MENU, GAME_OVER}
      then (case create_level_1_1 of (pls, cs, g) \<Rightarrow>
              w\<lparr>w_game_state := reset_level ((w_game_state w)\<lparr>state := PLAYING\<rparr>),
                w_platforms := pls, w_coins := cs, w_goal := g,
                w_player := Player 32 100,
                w_camera := (w_camera w)\<lparr>scroll_x := 0\<rparr>\<rparr>)
      else w)"
| "handle_event (KEYDOWN K_OTHER) w = w"
| "handle_event OTHER_EVENT w = w"

fun handle_events :: "event list \<Rightarrow> world \<Rightarrow> world" where
  "handle_events [] w = w"
| "handle_events (e # es) w = handle_events es (handle_event e w)"

text \<open>The block \<^verbatim>\<open># Update game timer\<close> of the \<^verbatim>\<open>PLAYING\<close> branch.\<close>

definition update_game_timer :: "game_state \<Rightarrow> game_state \<times> sfx list" where
  "update_game_timer gs =
     (let gs1 = gs\<lparr>timer := timer gs + 1\<rparr>
      in if timer gs1 mod 60 = 0
         then let gs2 = gs1\<lparr>time := time gs1 - 1\<rparr>
              in if time gs2 \<le> 0 then (gs2\<lparr>state := GAME_OVER\<rparr>, [SfxGameover])
                 else (gs2, [])
         else (gs1, []))"

text \<open>The block \<^verbatim>\<open># Check if player fell off screen\<close>.\<close>

definition check_fell_off_screen ::
    "game_state \<times> player \<times> camera \<Rightarrow> (game_state \<times> player \<times> camera) \<times> sfx list" where
  "check_fell_off_screen a =
     (case a of (gs, p, cam) \<Rightarrow>
        if y p > GB_H
        then let gs1 = gs\<lparr>lives := lives gs - 1\<rparr>
             in if lives gs1 \<le> 0
                then ((gs1\<lparr>state := GAME_OVER\<rparr>, p, cam), [SfxGameover])
                else ((gs1, Player 32 100, cam\<lparr>scroll_x := 0\<rparr>), [SfxDamage])
        else ((gs, p, cam), []))"

text \<open>
  The block \<^verbatim>\<open># Update coins\<close>: the loop runs over a copy of the list and
  \<^verbatim>\<open>coins.remove(coin)\<close> takes the visited object out of the live list (the objects
  compare by identity), so the model drops the visited element. The result is the live
  list, the game state and the sounds played.
\<close>

fun update_coins :: "player \<Rightarrow> coin list \<Rightarrow> game_state \<Rightarrow> coin list \<times> game_state \<times> sfx list" where
  "update_coins p [] gs = ([], gs, [])"
| "update_coins p (c # cs) gs =
     (let c1 = coin_update c
      in if overlaps p c1
         then (case update_coins p cs (gs\<lparr>coins := coins gs + 1, score := score gs + 200\<rparr>) of
                 (kept, gs1, snd1) \<Rightarrow> (kept, gs1, SfxCoin # snd1))
         else (case update_coins p cs gs of
                 (kept, gs1, snd1) \<Rightarrow> (c1 # kept, gs1, snd1)))"

text \<open>The block \<^verbatim>\<open># Check goal\<close>.\<close>

definition check_goal :: "player \<Rightarrow> goal \<Rightarrow> game_state \<Rightarrow> game_state \<times> sfx list" where
  "check_goal p g gs =
     (if overlaps p g then (gs\<lparr>state := VICTORY\<rparr>, [SfxVictory]) else (gs, []))"

text \<open>The \<^verbatim>\<open>PLAYING\<close> branch of the loop body, without its drawing.\<close>

definition playing_tick :: "keys \<Rightarrow> world \<Rightarrow> world" where
  "playing_tick ks w =
     (let (gs1, snd1) = update_game_timer (w_game_state w);
          (p1, snd2) = player_update ks (w_player w) (w_platforms w);
          ((gs2, p2, cam2), snd3) = check_fell_off_screen (gs1, p1, w_camera w);
          cam3 = camera_update cam2 (x p2);
          (cs1, gs3, snd4) = update_coins p2 (w_coins w) gs2;
          (gs4, snd5) = check_goal p2 (w_goal w) gs3
      in w\<lparr>w_game_state := gs4, w_coins := cs1, w_player := p2, w_camera := cam3,
           w_sounds := w_sounds w @ snd1 @ snd2 @ snd3 @ snd4 @ snd5\<rparr>)"

text \<open>
  One pass through the body of \<^verbatim>\<open>while running\<close>: the pending events, then the branch
  of the current state (only \<^verbatim>\<open>PLAYING\<close> changes anything but the picture).
\<close>

definition main_iteration :: "event list \<times> keys \<Rightarrow> world \<Rightarrow> world" where
  "main_iteration inp w =
     (let w1 = handle_events (fst inp) w
      in if state (w_game_state w1) = PLAYING then playing_tick (snd inp) w1 else w1)"

text \<open>
  The loop of \<^verbatim>\<open>main\<close> on a finite sequence of per-frame inputs: it stops early once
  \<^verbatim>\<open>running\<close> is false, and otherwise returns the world reached after the last input.
\<close>

fun main_loop :: "(event list \<times> keys) list \<Rightarrow> world \<Rightarrow> world" where
  "main_loop [] w = w"
| "main_loop (inp # inps) w =
     (if w_running w then main_loop inps (main_iteration inp w) else w)"

section \<open>Concrete inputs\<close>

text \<open>No key held.\<close>

definition no_keys :: keys where
  "no_keys = \<lparr>K_LEFT = False, K_a = False, K_RIGHT = False, K_d = False, K_z = False,
     K_SPACE = False\<rparr>"

text \<open>The level after all six coins were collected and the goal was reached.\<close>

definition won_world :: world where
  "won_world =
     initial_world\<lparr>w_game_state := GameState\<lparr>state := VICTORY, score := 1200, coins := 6\<rparr>\<rparr>"

text \<open>The game-over screen after the third fall: no life is left.\<close>

definition out_of_lives_world :: world where
  "out_of_lives_world =
     initial_world\<lparr>w_game_state := GameState\<lparr>state := GAME_OVER, lives := 0\<rparr>\<rparr>"

text \<open>A player in the gap between the first two ground platforms, below the screen.\<close>

definition fallen_player :: player where
  "fallen_player = (Player 210 145)\<lparr>vel_y := 4\<rparr>"

text \<open>Play with one life left and the player about to be seen below the screen.\<close>

definition last_life_world :: world where
  "last_life_world =
     initial_world\<lparr>w_game_state := GameState\<lparr>state := PLAYING, lives := 1\<rparr>,
       w_player := fallen_player\<rparr>"

text \<open>The range in which the horizontal speed is to stay.\<close>

definition in_speed_range :: "rat \<Rightarrow> bool" where
  "in_speed_range v \<longleftrightarrow> - PLAYER_MAX_SPEED \<le> v \<and> v \<le> PLAYER_MAX_SPEED"

text \<open>Only the right arrow held; a player just below top speed; a player slower than one
  step of deceleration.\<close>

definition right_keys :: keys where
  "right_keys = no_keys\<lparr>K_RIGHT := True\<rparr>"

definition fast_player :: player where
  "fast_player = (Player 32 112)\<lparr>vel_x := 31 / 20, grounded := True\<rparr>"

definition slow_player :: player where
  "slow_player = (Player 32 112)\<lparr>vel_x := 1 / 10, grounded := True\<rparr>"

section \<open>Further concrete inputs\<close>

text \<open>A player about to land on the first ground platform, and one rising into the
  underside of the floating platform at \<open>(160, 96)\<close>.\<close>

definition landing_player :: player where
  "landing_player = (Player 32 (445 / 4))\<lparr>vel_y := 5 / 2\<rparr>"

definition rising_player :: player where
  "rising_player = (Player 170 112)\<lparr>vel_y := - (17 / 4)\<rparr>"

text \<open>A player falling onto two floors that lie one pixel apart, one inside the other.\<close>

definition dropping_player :: player where
  "dropping_player = (Player 32 110)\<lparr>vel_y := 9 / 4\<rparr>"

definition stacked_floors :: "platform list" where
  "stacked_floors = [Platform 0 128 200 16, Platform 0 127 200 16]"

text \<open>A player walking right into two walls that start half a pixel apart.\<close>

definition walking_player :: player where
  "walking_player = (Player 0 100)\<lparr>vel_x := 8 / 5\<rparr>"

definition two_walls :: "platform list" where
  "two_walls = [Platform 9 100 10 16, Platform (17 / 2) 100 10 16]"




section \<open>Notions used in the statements about coins\<close>

text \<open>The position and size of an entity, without its other attributes.\<close>

definition bounding_box :: "'a rect_scheme \<Rightarrow> rat \<times> rat \<times> rat \<times> rat" where
  "bounding_box r = (x r, y r, width r, height r)"

text \<open>
  A sequence of per-frame inputs in which the confirm key is never pressed: the level
  instance is then never rebuilt.
\<close>

definition no_restart :: "(event list \<times> keys) list \<Rightarrow> bool" where
  "no_restart inps \<longleftrightarrow> list_all (\<lambda>inp. KEYDOWN K_RETURN \<notin> set (fst inp)) inps"

text \<open>A player standing on the floating platform at \<open>(160, 96)\<close>, exactly where the first
  coin is, and play in that situation.\<close>

definition coin_player :: player where
  "coin_player = (Player 176 80)\<lparr>grounded := True\<rparr>"

definition coin_world :: world where
  "coin_world = initial_world\<lparr>w_game_state := GameState\<lparr>state := PLAYING\<rparr>, w_player := coin_player\<rparr>"

section \<open>Notions used in the statement about the countdown\<close>

text \<open>
  A tick in which nothing but the countdown can change the state of the game: after
  \<open>Player.update\<close> the player is neither below the screen nor touching the goal.
\<close>

definition tick_is_quiet :: "keys \<Rightarrow> world \<Rightarrow> bool" where
  "tick_is_quiet ks w \<longleftrightarrow>
     (let p1 = fst (player_update ks (w_player w) (w_platforms w))
      in \<not> y p1 > GB_H \<and> \<not> overlaps p1 (w_goal w))"

text \<open>Frames without events, one for each polled key state.\<close>

definition ticks :: "keys list \<Rightarrow> (event list \<times> keys) list" where
  "ticks kss = map (\<lambda>ks. ([], ks)) kss"

text \<open>Play as it begins when the confirm key is pressed on the title screen.\<close>

definition fresh_start_world :: world where
  "fresh_start_world = handle_event (KEYDOWN K_RETURN) initial_world"

text \<open>
  The pairs \<open>(vel_y, y)\<close> that the player passes through when no key is ever held: the
  fall from the spawn point onto the first ground platform, then rest at \<open>y = 112\<close>.
\<close>

definition idle_trajectory :: "(rat \<times> rat) list" where
  "idle_trajectory =
     [(0, 100), (1 / 4, 401 / 4), (1 / 2, 403 / 4), (3 / 4, 203 / 2), (1, 205 / 2),
      (5 / 4, 415 / 4), (3 / 2, 421 / 4), (7 / 4, 107), (2, 109), (9 / 4, 445 / 4), (0, 112)]"

definition idle_player :: "player \<Rightarrow> bool" where
  "idle_player p \<longleftrightarrow>
     x p = 32 \<and> vel_x p = 0 \<and> width p = 8 \<and> height p = 16 \<and> alive p
     \<and> (vel_y p, y p) \<in> set idle_trajectory"

definition idle_world :: "world \<Rightarrow> bool" where
  "idle_world w \<longleftrightarrow>
     w_platforms w = fst create_level_1_1 \<and> w_goal w = Goal 800 96 \<and> idle_player (w_player w)"

section \<open>Auxiliary facts\<close>


lemma SCROLL_EDGE_eq: "SCROLL_EDGE = 80"
  by (simp add: SCROLL_EDGE_def GB_W_def)

lemma camera_update_nonneg: "0 \<le> scroll_x (camera_update cam t)"
  by (simp add: camera_update_def Let_def)

lemma update_game_timer_lives: "lives (fst (update_game_timer gs)) = lives gs"
  by (simp add: update_game_timer_def Let_def)

lemma update_coins_frame:
  "update_coins p cs gs = (kept, gs1, snd1) \<Longrightarrow>
     lives gs1 = lives gs \<and> state gs1 = state gs \<and> time gs1 = time gs \<and> timer gs1 = timer gs"
proof (induction cs arbitrary: gs kept gs1 snd1)
  case Nil
  then show ?case by simp
next
  case (Cons c cs)
  then show ?case
    by (auto simp: Let_def split: if_splits prod.splits)
qed

lemma check_goal_frame:
  "lives (fst (check_goal p g gs)) = lives gs \<and> time (fst (check_goal p g gs)) = time gs
   \<and> timer (fst (check_goal p g gs)) = timer gs \<and> score (fst (check_goal p g gs)) = score gs
   \<and> coins (fst (check_goal p g gs)) = coins gs"
  by (simp add: check_goal_def)

lemma handle_event_camera: "0 \<le> scroll_x (w_camera w) \<Longrightarrow> 0 \<le> scroll_x (w_camera (handle_event e w))"
  by (cases "(e, w)" rule: handle_event.cases) (auto simp: create_level_1_1_def)

lemma handle_events_camera: "0 \<le> scroll_x (w_camera w) \<Longrightarrow> 0 \<le> scroll_x (w_camera (handle_events es w))"
  by (induction es arbitrary: w) (simp_all add: handle_event_camera)

lemma playing_tick_camera: "0 \<le> scroll_x (w_camera (playing_tick ks w))"
  by (simp add: playing_tick_def Let_def camera_update_nonneg split: prod.splits)

lemma main_iteration_camera: "0 \<le> scroll_x (w_camera w) \<Longrightarrow> 0 \<le> scroll_x (w_camera (main_iteration inp w))"
  by (simp add: main_iteration_def Let_def playing_tick_camera handle_events_camera)

lemma main_loop_camera: "0 \<le> scroll_x (w_camera w) \<Longrightarrow> 0 \<le> scroll_x (w_camera (main_loop inps w))"
  by (induction inps arbitrary: w) (simp_all add: main_iteration_camera)

lemma initial_camera: "scroll_x (w_camera initial_world) = 0"
  by (simp add: initial_world_def create_level_1_1_def Camera_def)

section \<open>Camera (claim C7)\<close>

text \<open>
  Claim C7. The camera's \<open>scroll_x\<close> is never negative: every \<open>camera_update\<close> returns a
  non-negative value, and so does every run of the main loop from the initial world. A call
  never decreases \<open>scroll_x\<close>. \<open>SCROLL_EDGE\<close> is half the visible width. If
  \<open>target_x - scroll_x\<close> exceeds \<open>SCROLL_EDGE\<close> the new value is \<open>target_x - SCROLL_EDGE\<close>
  (floored at zero, which changes nothing when \<open>scroll_x\<close> was non-negative); otherwise
  \<open>scroll_x\<close> is unchanged apart from the floor at zero. With \<open>scroll_x = 0\<close>, a target
  beyond \<open>SCROLL_EDGE + 1\<close> gives \<open>scroll_x = target_x - SCROLL_EDGE\<close>.
\<close>

theorem camera_scroll_never_negative_and_monotone:
  "0 \<le> scroll_x (camera_update cam t)
   \<and> scroll_x cam \<le> scroll_x (camera_update cam t)
   \<and> SCROLL_EDGE = GB_W / 2
   \<and> (t - scroll_x cam > SCROLL_EDGE \<longrightarrow>
        scroll_x (camera_update cam t) = max 0 (t - SCROLL_EDGE))
   \<and> (0 \<le> scroll_x cam \<longrightarrow> t - scroll_x cam > SCROLL_EDGE \<longrightarrow>
        scroll_x (camera_update cam t) = t - SCROLL_EDGE)
   \<and> (\<not> t - scroll_x cam > SCROLL_EDGE \<longrightarrow>
        scroll_x (camera_update cam t) = max 0 (scroll_x cam))
   \<and> (0 \<le> scroll_x cam \<longrightarrow> \<not> t - scroll_x cam > SCROLL_EDGE \<longrightarrow> camera_update cam t = cam)
   \<and> (scroll_x cam = 0 \<longrightarrow> t > SCROLL_EDGE + 1 \<longrightarrow>
        scroll_x (camera_update cam t) = t - SCROLL_EDGE)
   \<and> (\<forall>inps. 0 \<le> scroll_x (w_camera (main_loop inps initial_world)))"
proof -
  have e: "SCROLL_EDGE = GB_W / 2"
    by (simp add: SCROLL_EDGE_eq GB_W_def)
  have m: "\<forall>inps. 0 \<le> scroll_x (w_camera (main_loop inps initial_world))"
    by (simp add: main_loop_camera initial_camera)
  have "0 \<le> scroll_x (camera_update cam t)"
    by (rule camera_update_nonneg)
  moreover have "scroll_x cam \<le> scroll_x (camera_update cam t)"
    by (simp add: camera_update_def Let_def SCROLL_EDGE_eq)
  moreover have "t - scroll_x cam > SCROLL_EDGE \<longrightarrow>
        scroll_x (camera_update cam t) = max 0 (t - SCROLL_EDGE)"
    by (simp add: camera_update_def Let_def)
  moreover have "0 \<le> scroll_x cam \<longrightarrow> t - scroll_x cam > SCROLL_EDGE \<longrightarrow>
        scroll_x (camera_update cam t) = t - SCROLL_EDGE"
    by (simp add: camera_update_def Let_def SCROLL_EDGE_eq)
  moreover have "\<not> t - scroll_x cam > SCROLL_EDGE \<longrightarrow>
        scroll_x (camera_update cam t) = max 0 (scroll_x cam)"
    by (simp add: camera_update_def Let_def)
  moreover have "0 \<le> scroll_x cam \<longrightarrow> \<not> t - scroll_x cam > SCROLL_EDGE \<longrightarrow> camera_update cam t = cam"
    by (simp add: camera_update_def Let_def)
  moreover have "scroll_x cam = 0 \<longrightarrow> t > SCROLL_EDGE + 1 \<longrightarrow>
        scroll_x (camera_update cam t) = t - SCROLL_EDGE"
    by (simp add: camera_update_def Let_def SCROLL_EDGE_eq)
  ultimately show ?thesis using e m by blast
qed

theorem camera_scroll_witness:
  "scroll_x Camera = 0 \<and> (100::rat) > SCROLL_EDGE + 1 \<and> 100 - scroll_x Camera > SCROLL_EDGE
   \<and> scroll_x (camera_update Camera 100) = 20
   \<and> \<not> 50 - scroll_x Camera > SCROLL_EDGE \<and> camera_update Camera 50 = Camera"
  using camera_scroll_never_negative_and_monotone [of Camera 100]
    camera_scroll_never_negative_and_monotone [of Camera 50]
  by (simp add: Camera_def SCROLL_EDGE_eq)

section \<open>Victory is final (claim C10)\<close>

lemma handle_event_victory:
  "state (w_game_state w) = VICTORY \<Longrightarrow> \<exists>r. handle_event e w = w\<lparr>w_running := r\<rparr>"
proof (cases "(e, w)" rule: handle_event.cases)
  case (1 w')
  then show ?thesis by auto
next
  case (2 w')
  assume "state (w_game_state w) = VICTORY"
  with 2 show ?thesis by auto
next
  case (3 w')
  assume "state (w_game_state w) = VICTORY"
  with 3 have "handle_event e w = w" by simp
  then have "handle_event e w = w\<lparr>w_running := w_running w\<rparr>" by simp
  then show ?thesis by blast
next
  case (4 w')
  then have "handle_event e w = w\<lparr>w_running := w_running w\<rparr>" by simp
  then show ?thesis by blast
next
  case (5 w')
  then have "handle_event e w = w\<lparr>w_running := w_running w\<rparr>" by simp
  then show ?thesis by blast
qed

lemma handle_events_victory:
  "state (w_game_state w) = VICTORY \<Longrightarrow> \<exists>r. handle_events es w = w\<lparr>w_running := r\<rparr>"
proof (induction es arbitrary: w)
  case Nil
  have "handle_events [] w = w\<lparr>w_running := w_running w\<rparr>" by simp
  then show ?case by blast
next
  case (Cons e es)
  from handle_event_victory [OF Cons.prems, of e]
  obtain r where r: "handle_event e w = w\<lparr>w_running := r\<rparr>" by blast
  have "state (w_game_state (w\<lparr>w_running := r\<rparr>)) = VICTORY"
    using Cons.prems by simp
  from Cons.IH [OF this] obtain r' where
    "handle_events es (w\<lparr>w_running := r\<rparr>) = w\<lparr>w_running := r, w_running := r'\<rparr>" by blast
  with r show ?case by auto
qed

lemma main_iteration_victory:
  "state (w_game_state w) = VICTORY \<Longrightarrow> \<exists>r. main_iteration inp w = w\<lparr>w_running := r\<rparr>"
proof -
  assume v: "state (w_game_state w) = VICTORY"
  from handle_events_victory [OF v, of "fst inp"]
  obtain r where r: "handle_events (fst inp) w = w\<lparr>w_running := r\<rparr>" by blast
  then have "main_iteration inp w = w\<lparr>w_running := r\<rparr>"
    using v by (simp add: main_iteration_def Let_def)
  then show ?thesis by blast
qed

lemma main_loop_victory:
  "state (w_game_state w) = VICTORY \<Longrightarrow> \<exists>r. main_loop inps w = w\<lparr>w_running := r\<rparr>"
proof (induction inps arbitrary: w)
  case Nil
  have "main_loop [] w = w\<lparr>w_running := w_running w\<rparr>" by simp
  then show ?case by blast
next
  case (Cons inp inps)
  show ?case
  proof (cases "w_running w")
    case False
    then have "main_loop (inp # inps) w = w\<lparr>w_running := w_running w\<rparr>" by simp
    then show ?thesis by blast
  next
    case True
    from main_iteration_victory [OF Cons.prems, of inp]
    obtain r where r: "main_iteration inp w = w\<lparr>w_running := r\<rparr>" by blast
    have "state (w_game_state (w\<lparr>w_running := r\<rparr>)) = VICTORY"
      using Cons.prems by simp
    from Cons.IH [OF this] obtain r' where
      "main_loop inps (w\<lparr>w_running := r\<rparr>) = w\<lparr>w_running := r, w_running := r'\<rparr>" by blast
    with r True show ?thesis by auto
  qed
qed

text \<open>
  Claim C10. In the \<open>VICTORY\<close> state the confirm key (\<open>K_RETURN\<close>) leaves the whole world
  unchanged; the cancel key (\<open>K_ESCAPE\<close>) only clears \<open>w_running\<close>, which ends the loop; no
  other key does anything; an iteration without events changes nothing; and whatever
  events and keys arrive, a run of the main loop from a \<open>VICTORY\<close> world returns that world
  with at most \<open>w_running\<close> changed, so play is never resumed.
\<close>

theorem victory_confirm_has_no_effect:
  assumes "state (w_game_state w) = VICTORY"
  shows "handle_event (KEYDOWN K_RETURN) w = w
    \<and> handle_event (KEYDOWN K_ESCAPE) w = w\<lparr>w_running := False\<rparr>
    \<and> (\<forall>k. k \<noteq> K_ESCAPE \<longrightarrow> handle_event (KEYDOWN k) w = w)
    \<and> main_iteration ([], ks) w = w
    \<and> (\<forall>inps. \<exists>r. main_loop inps w = w\<lparr>w_running := r\<rparr>)"
proof -
  have a: "handle_event (KEYDOWN K_RETURN) w = w"
    using assms by simp
  have b: "handle_event (KEYDOWN K_ESCAPE) w = w\<lparr>w_running := False\<rparr>"
    using assms by simp
  have c: "\<forall>k. k \<noteq> K_ESCAPE \<longrightarrow> handle_event (KEYDOWN k) w = w"
  proof (intro allI impI)
    fix k :: key
    assume "k \<noteq> K_ESCAPE"
    then show "handle_event (KEYDOWN k) w = w"
      using assms by (cases k) simp_all
  qed
  have d: "main_iteration ([], ks) w = w"
    using assms by (simp add: main_iteration_def)
  have e: "\<forall>inps. \<exists>r. main_loop inps w = w\<lparr>w_running := r\<rparr>"
    using main_loop_victory [OF assms] by blast
  from a b c d e show ?thesis by blast
qed

theorem victory_confirm_witness:
  "state (w_game_state won_world) = VICTORY
   \<and> handle_event (KEYDOWN K_RETURN) won_world = won_world
   \<and> w_game_state (main_loop [([KEYDOWN K_RETURN], no_keys), ([], no_keys), ([KEYDOWN K_RETURN], no_keys)] won_world)
       = GameState\<lparr>state := VICTORY, score := 1200, coins := 6\<rparr>"
proof -
  have v: "state (w_game_state won_world) = VICTORY"
    by (simp add: won_world_def)
  from victory_confirm_has_no_effect [OF v, of ks]
  have a: "handle_event (KEYDOWN K_RETURN) won_world = won_world"
    and b: "\<forall>inps. \<exists>r. main_loop inps won_world = won_world\<lparr>w_running := r\<rparr>"
    by blast+
  from b obtain r where
    "main_loop [([KEYDOWN K_RETURN], no_keys), ([], no_keys), ([KEYDOWN K_RETURN], no_keys)] won_world
       = won_world\<lparr>w_running := r\<rparr>" by blast
  then have "w_game_state (main_loop [([KEYDOWN K_RETURN], no_keys), ([], no_keys), ([KEYDOWN K_RETURN], no_keys)] won_world)
       = GameState\<lparr>state := VICTORY, score := 1200, coins := 6\<rparr>"
    by (simp add: won_world_def)
  with v a show ?thesis by blast
qed

section \<open>Fresh start (claim C1)\<close>

text \<open>
  Claim C1 says that a confirm action in \<open>MENU\<close> or \<open>GAME_OVER\<close> restores \<open>lives\<close> to its
  starting value 3. On the game-over screen that follows the loss of the last life, the
  confirm key does start play and does reset score, coins, time and timer, but
  \<open>reset_level\<close> does not touch \<open>lives\<close>: play resumes with \<open>lives = 0\<close>.
\<close>

theorem confirm_after_game_over_keeps_lives:
  "w_game_state (handle_event (KEYDOWN K_RETURN) out_of_lives_world)
     = \<lparr>state = PLAYING, score = 0, lives = 0, coins = 0, time = 400, timer = 0\<rparr>
   \<and> lives GameState = 3"
  by (simp add: out_of_lives_world_def initial_world_def create_level_1_1_def GameState_def
      reset_level_def)

section \<open>Falling off the screen (claim C5)\<close>


lemma playing_tick_parts:
  assumes "update_game_timer (w_game_state w) = (gs1, snd1)"
    and "player_update ks (w_player w) (w_platforms w) = (p1, snd2)"
    and "check_fell_off_screen (gs1, p1, w_camera w) = ((gs2, p2, cam2), snd3)"
    and "update_coins p2 (w_coins w) gs2 = (cs1, gs3, snd4)"
    and "check_goal p2 (w_goal w) gs3 = (gs4, snd5)"
  shows "playing_tick ks w =
     w\<lparr>w_game_state := gs4, w_coins := cs1, w_player := p2,
       w_camera := camera_update cam2 (x p2),
       w_sounds := w_sounds w @ snd1 @ snd2 @ snd3 @ snd4 @ snd5\<rparr>"
  using assms by (simp add: playing_tick_def)

lemma check_fell_off_screen_fallen:
  assumes "y p > GB_H"
  shows "check_fell_off_screen (gs, p, cam) =
     (if lives gs - 1 > 0
      then ((gs\<lparr>lives := lives gs - 1\<rparr>, Player 32 100, cam\<lparr>scroll_x := 0\<rparr>), [SfxDamage])
      else ((gs\<lparr>lives := lives gs - 1, state := GAME_OVER\<rparr>, p, cam), [SfxGameover]))"
  using assms by (simp add: check_fell_off_screen_def Let_def)

lemma camera_update_respawn: "camera_update (cam\<lparr>scroll_x := 0\<rparr>) (x (Player 32 100)) = cam\<lparr>scroll_x := 0\<rparr>"
  by (simp add: camera_update_def Player_def SCROLL_EDGE_eq)

lemma fallen_misses_goal: "y p > GB_H \<Longrightarrow> \<not> overlaps p (Goal 800 96)"
  by (simp add: overlaps_def Goal_def GB_H_def)

text \<open>
  Claim C5. When the player's \<open>y\<close> exceeds \<open>GB_H\<close>, the fall check takes one life. If lives
  remain, the player is replaced by a new one at \<open>(32, 100)\<close>, the camera scroll is set to 0
  and the damage effect is played; otherwise the state becomes \<open>GAME_OVER\<close>, the game-over
  effect is played and player and camera are left as they are. From \<open>lives = 1\<close> the result
  is \<open>lives = 0\<close> and \<open>GAME_OVER\<close>. The same holds for the whole \<open>PLAYING\<close> tick in which
  the updated player is below the screen: the tick ends with one life less, with the
  respawned player and \<open>scroll_x = 0\<close>, or in \<open>GAME_OVER\<close> (the goal of the level cannot be
  touched from below the screen).
\<close>

theorem fall_below_screen_costs_a_life:
  assumes "y p > GB_H"
  shows "check_fell_off_screen (gs, p, cam) =
       (if lives gs - 1 > 0
        then ((gs\<lparr>lives := lives gs - 1\<rparr>, Player 32 100, cam\<lparr>scroll_x := 0\<rparr>), [SfxDamage])
        else ((gs\<lparr>lives := lives gs - 1, state := GAME_OVER\<rparr>, p, cam), [SfxGameover]))
    \<and> (lives gs = 1 \<longrightarrow>
         check_fell_off_screen (gs, p, cam) = ((gs\<lparr>lives := 0, state := GAME_OVER\<rparr>, p, cam), [SfxGameover]))
    \<and> (fst (player_update ks (w_player w) (w_platforms w)) = p \<longrightarrow>
         lives (w_game_state (playing_tick ks w)) = lives (w_game_state w) - 1
         \<and> (lives (w_game_state w) - 1 > 0 \<longrightarrow>
              w_player (playing_tick ks w) = Player 32 100
              \<and> scroll_x (w_camera (playing_tick ks w)) = 0
              \<and> SfxDamage \<in> set (drop (length (w_sounds w)) (w_sounds (playing_tick ks w))))
         \<and> (lives (w_game_state w) - 1 \<le> 0 \<longrightarrow>
              w_player (playing_tick ks w) = p
              \<and> SfxGameover \<in> set (drop (length (w_sounds w)) (w_sounds (playing_tick ks w)))
              \<and> (w_goal w = Goal 800 96 \<longrightarrow> state (w_game_state (playing_tick ks w)) = GAME_OVER)))"
proof -
  note a = check_fell_off_screen_fallen [OF assms]
  have b: "lives gs = 1 \<longrightarrow>
         check_fell_off_screen (gs, p, cam) = ((gs\<lparr>lives := 0, state := GAME_OVER\<rparr>, p, cam), [SfxGameover])"
    by (simp add: a)
  have c: "lives (w_game_state (playing_tick ks w)) = lives (w_game_state w) - 1
         \<and> (lives (w_game_state w) - 1 > 0 \<longrightarrow>
              w_player (playing_tick ks w) = Player 32 100
              \<and> scroll_x (w_camera (playing_tick ks w)) = 0
              \<and> SfxDamage \<in> set (drop (length (w_sounds w)) (w_sounds (playing_tick ks w))))
         \<and> (lives (w_game_state w) - 1 \<le> 0 \<longrightarrow>
              w_player (playing_tick ks w) = p
              \<and> SfxGameover \<in> set (drop (length (w_sounds w)) (w_sounds (playing_tick ks w)))
              \<and> (w_goal w = Goal 800 96 \<longrightarrow> state (w_game_state (playing_tick ks w)) = GAME_OVER))"
    if pu: "fst (player_update ks (w_player w) (w_platforms w)) = p"
  proof -
    obtain gs1 snd1 where t: "update_game_timer (w_game_state w) = (gs1, snd1)"
      by (cases "update_game_timer (w_game_state w)")
    obtain snd2 where u: "player_update ks (w_player w) (w_platforms w) = (p, snd2)"
      using pu by (cases "player_update ks (w_player w) (w_platforms w)") simp
    obtain gs2 p2 cam2 snd3 where f: "check_fell_off_screen (gs1, p, w_camera w) = ((gs2, p2, cam2), snd3)"
      by (cases "check_fell_off_screen (gs1, p, w_camera w)") auto
    obtain cs1 gs3 snd4 where c: "update_coins p2 (w_coins w) gs2 = (cs1, gs3, snd4)"
      by (cases "update_coins p2 (w_coins w) gs2") auto
    obtain gs4 snd5 where g: "check_goal p2 (w_goal w) gs3 = (gs4, snd5)"
      by (cases "check_goal p2 (w_goal w) gs3")
    note tick = playing_tick_parts [OF t u f c g]
    have l1: "lives gs1 = lives (w_game_state w)"
      using update_game_timer_lives [of "w_game_state w"] t by simp
    note f' = f [unfolded check_fell_off_screen_fallen [OF assms, of gs1 "w_camera w"]]
    have l3: "lives gs3 = lives gs2" "state gs3 = state gs2"
      using update_coins_frame [OF c] by simp_all
    have l4: "lives gs4 = lives gs3"
      using check_goal_frame [of p2 "w_goal w" gs3] g by simp
    have l2: "lives gs2 = lives gs1 - 1"
      using f' by (auto split: if_splits)
    have A: "lives (w_game_state (playing_tick ks w)) = lives (w_game_state w) - 1"
      by (simp add: tick l1 l2 l3 l4)
    have B: "w_player (playing_tick ks w) = Player 32 100
              \<and> scroll_x (w_camera (playing_tick ks w)) = 0
              \<and> SfxDamage \<in> set (drop (length (w_sounds w)) (w_sounds (playing_tick ks w)))"
      if pos: "lives (w_game_state w) - 1 > 0"
    proof -
      from f' pos l1 have "p2 = Player 32 100" "cam2 = (w_camera w)\<lparr>scroll_x := 0\<rparr>" "snd3 = [SfxDamage]"
        by (auto split: if_splits)
      then show ?thesis
        by (simp add: tick camera_update_respawn)
    qed
    have C: "w_player (playing_tick ks w) = p
              \<and> SfxGameover \<in> set (drop (length (w_sounds w)) (w_sounds (playing_tick ks w)))
              \<and> (w_goal w = Goal 800 96 \<longrightarrow> state (w_game_state (playing_tick ks w)) = GAME_OVER)"
      if np: "lives (w_game_state w) - 1 \<le> 0"
    proof -
      from f' np l1 have e: "p2 = p" "snd3 = [SfxGameover]" "state gs2 = GAME_OVER"
        by (auto split: if_splits)
      have "state gs4 = GAME_OVER" if "w_goal w = Goal 800 96"
        using g that e l3 fallen_misses_goal [OF assms] by (simp add: check_goal_def)
      with e show ?thesis
        by (simp add: tick)
    qed
    from A B C show ?thesis by blast
  qed
  from a b c show ?thesis by blast
qed

lemma level_simps:
  "w_platforms initial_world = fst create_level_1_1"
  "w_coins initial_world = fst (snd create_level_1_1)"
  "w_goal initial_world = Goal 800 96"
  "w_player initial_world = Player 32 100"
  "w_camera initial_world = Camera"
  "w_game_state initial_world = GameState"
  "w_running initial_world"
  "w_sounds initial_world = []"
  by (simp_all add: initial_world_def create_level_1_1_def)


lemma last_life_physics:
  "physics fallen_player (fst create_level_1_1) = fallen_player\<lparr>vel_y := 17 / 4, y := 597 / 4\<rparr>"
  unfolding physics_def physics_horizontal_def physics_move_y_def Let_def
  by (simp add: overlaps_def fallen_player_def Player_def Platform_def create_level_1_1_def GRAVITY_def)

lemma last_life_update:
  "player_update no_keys (w_player last_life_world) (w_platforms last_life_world)
     = (fallen_player\<lparr>vel_y := 17 / 4, y := 597 / 4, anim_timer := 1\<rparr>, [])"
proof -
  have a: "apply_input no_keys fallen_player = (fallen_player, [])"
    unfolding apply_input_def Let_def
    by (simp add: fallen_player_def Player_def no_keys_def)
  show ?thesis
    unfolding player_update_def Let_def
    by (simp add: last_life_world_def level_simps a last_life_physics)
      (simp add: fallen_player_def Player_def)
qed

theorem fall_below_screen_witness:
  "y fallen_player > GB_H \<and> lives (GameState\<lparr>state := PLAYING, lives := 1\<rparr>) = 1
   \<and> check_fell_off_screen (GameState\<lparr>state := PLAYING, lives := 1\<rparr>, fallen_player, Camera)
       = ((GameState\<lparr>state := GAME_OVER, lives := 0\<rparr>, fallen_player, Camera), [SfxGameover])
   \<and> check_fell_off_screen (GameState\<lparr>state := PLAYING\<rparr>, fallen_player, \<lparr>scroll_x = 130\<rparr>)
       = ((GameState\<lparr>state := PLAYING, lives := 2\<rparr>, Player 32 100, Camera), [SfxDamage])
   \<and> y (fst (player_update no_keys (w_player last_life_world) (w_platforms last_life_world))) > GB_H
   \<and> lives (w_game_state (playing_tick no_keys last_life_world)) = 0
   \<and> state (w_game_state (playing_tick no_keys last_life_world)) = GAME_OVER"
proof -
  have h: "y fallen_player > GB_H"
    by (simp add: fallen_player_def Player_def GB_H_def)
  have k: "y (fst (player_update no_keys (w_player last_life_world) (w_platforms last_life_world))) > GB_H"
    by (simp add: last_life_update GB_H_def)
  have l: "lives (w_game_state last_life_world) = 1" "w_goal last_life_world = Goal 800 96"
    by (simp_all add: last_life_world_def level_simps GameState_def)
  from fall_below_screen_costs_a_life [OF h, of "GameState\<lparr>state := PLAYING, lives := 1\<rparr>" Camera]
    fall_below_screen_costs_a_life [OF h, of "GameState\<lparr>state := PLAYING\<rparr>" "\<lparr>scroll_x = 130\<rparr>"]
    fall_below_screen_costs_a_life [OF k, where ks = no_keys and w = last_life_world]
    h k l
  show ?thesis
    by (simp add: GameState_def Camera_def)
qed

section \<open>Horizontal speed (claim C6)\<close>

lemma in_speed_range_0: "in_speed_range 0"
  by (simp add: in_speed_range_def PLAYER_MAX_SPEED_def)

lemma apply_input_vel_x:
  "vel_x (fst (apply_input ks p)) =
     (if \<not> alive p then vel_x p
      else if K_LEFT ks \<or> K_a ks then max (vel_x p - PLAYER_ACCEL) (- PLAYER_MAX_SPEED)
      else if K_RIGHT ks \<or> K_d ks then min (vel_x p + PLAYER_ACCEL) PLAYER_MAX_SPEED
      else if vel_x p > 0 then max 0 (vel_x p - PLAYER_DECEL)
      else if vel_x p < 0 then min 0 (vel_x p + PLAYER_DECEL)
      else vel_x p)"
  unfolding apply_input_def Let_def by simp

lemma apply_input_speed:
  assumes "in_speed_range (vel_x p)"
  shows "in_speed_range (vel_x (fst (apply_input ks p)))"
proof -
  from assms have r: "- (8 / 5) \<le> vel_x p" "vel_x p \<le> 8 / 5"
    by (simp_all add: in_speed_range_def PLAYER_MAX_SPEED_def)
  show ?thesis
    unfolding apply_input_vel_x in_speed_range_def PLAYER_MAX_SPEED_def PLAYER_ACCEL_def
      PLAYER_DECEL_def max_def min_def
    using r by (simp; linarith)
qed

lemma physics_resolve_x_vel_x:
  "vel_x (physics_resolve_x p pls) = vel_x p \<or> vel_x (physics_resolve_x p pls) = 0"
proof (induction pls arbitrary: p)
  case Nil
  show ?case by simp
next
  case (Cons pl pls)
  show ?case
    using Cons.IH [of p]
      Cons.IH [of "(p\<lparr>x := x pl - width p\<rparr>)\<lparr>vel_x := 0\<rparr>"]
      Cons.IH [of "(p\<lparr>x := x pl + width pl\<rparr>)\<lparr>vel_x := 0\<rparr>"]
      Cons.IH [of "p\<lparr>vel_x := 0\<rparr>"]
    by (auto split: if_splits)
qed

lemma physics_resolve_y_vel_x: "vel_x (physics_resolve_y p pls) = vel_x p"
  by (induction pls arbitrary: p) simp_all

lemma physics_vel_x: "vel_x (physics p pls) = vel_x p \<or> vel_x (physics p pls) = 0"
proof -
  have "vel_x (physics p pls) = vel_x (physics_horizontal p pls)"
    by (simp add: physics_def physics_resolve_y_vel_x physics_move_y_def)
  moreover have "vel_x (physics_horizontal p pls) = vel_x p \<or> vel_x (physics_horizontal p pls) = 0"
    unfolding physics_horizontal_def Let_def
    using physics_resolve_x_vel_x [of "p\<lparr>vel_y := vel_y p + GRAVITY, x := x p + vel_x p\<rparr>" pls]
    by simp
  ultimately show ?thesis by simp
qed

lemma player_update_vel_x:
  "vel_x (fst (player_update ks p pls)) = vel_x (physics (fst (apply_input ks p)) pls)"
  unfolding player_update_def Let_def
  by (simp add: split_beta)

lemma player_update_speed:
  assumes "in_speed_range (vel_x p)"
  shows "in_speed_range (vel_x (fst (player_update ks p pls)))"
  using physics_vel_x [of "fst (apply_input ks p)" pls] apply_input_speed [OF assms, of ks]
  by (auto simp: player_update_vel_x in_speed_range_0)

lemma check_fell_off_screen_speed:
  "in_speed_range (vel_x p) \<Longrightarrow>
     in_speed_range (vel_x (fst (snd (fst (check_fell_off_screen (gs, p, cam))))))"
  by (simp add: check_fell_off_screen_def Let_def Player_def in_speed_range_0)

lemma playing_tick_player:
  "w_player (playing_tick ks w) =
     fst (snd (fst (check_fell_off_screen
       (fst (update_game_timer (w_game_state w)),
        fst (player_update ks (w_player w) (w_platforms w)), w_camera w))))"
  unfolding playing_tick_def Let_def
  by (simp add: split_beta)

lemma playing_tick_speed:
  "in_speed_range (vel_x (w_player w)) \<Longrightarrow> in_speed_range (vel_x (w_player (playing_tick ks w)))"
  by (simp add: playing_tick_player check_fell_off_screen_speed player_update_speed)

lemma handle_event_speed:
  "in_speed_range (vel_x (w_player w)) \<Longrightarrow> in_speed_range (vel_x (w_player (handle_event e w)))"
  by (cases "(e, w)" rule: handle_event.cases)
    (auto simp: create_level_1_1_def Player_def in_speed_range_0)

lemma handle_events_speed:
  "in_speed_range (vel_x (w_player w)) \<Longrightarrow> in_speed_range (vel_x (w_player (handle_events es w)))"
  by (induction es arbitrary: w) (simp_all add: handle_event_speed)

lemma main_iteration_speed:
  "in_speed_range (vel_x (w_player w)) \<Longrightarrow> in_speed_range (vel_x (w_player (main_iteration inp w)))"
  by (simp add: main_iteration_def Let_def playing_tick_speed handle_events_speed)

lemma main_loop_speed:
  "in_speed_range (vel_x (w_player w)) \<Longrightarrow> in_speed_range (vel_x (w_player (main_loop inps w)))"
  by (induction inps arbitrary: w) (simp_all add: main_iteration_speed)

lemma physics_resolve_x_alive: "alive (physics_resolve_x p pls) = alive p"
  by (induction pls arbitrary: p) simp_all

lemma physics_resolve_y_alive: "alive (physics_resolve_y p pls) = alive p"
  by (induction pls arbitrary: p) simp_all

lemma physics_alive: "alive (physics p pls) = alive p"
  unfolding physics_def physics_horizontal_def physics_move_y_def Let_def
  by (simp add: physics_resolve_x_alive physics_resolve_y_alive)

lemma apply_input_alive: "alive (fst (apply_input ks p)) = alive p"
  unfolding apply_input_def Let_def by simp

lemma player_update_alive: "alive (fst (player_update ks p pls)) = alive p"
  unfolding player_update_def Let_def
  by (simp add: split_beta physics_alive apply_input_alive)

lemma playing_tick_alive: "alive (w_player w) \<Longrightarrow> alive (w_player (playing_tick ks w))"
  by (simp add: playing_tick_player check_fell_off_screen_def Let_def player_update_alive Player_def)

lemma handle_event_alive: "alive (w_player w) \<Longrightarrow> alive (w_player (handle_event e w))"
  by (cases "(e, w)" rule: handle_event.cases) (auto simp: create_level_1_1_def Player_def)

lemma handle_events_alive: "alive (w_player w) \<Longrightarrow> alive (w_player (handle_events es w))"
  by (induction es arbitrary: w) (simp_all add: handle_event_alive)

lemma main_iteration_alive: "alive (w_player w) \<Longrightarrow> alive (w_player (main_iteration inp w))"
  by (simp add: main_iteration_def Let_def playing_tick_alive handle_events_alive)

lemma main_loop_alive: "alive (w_player w) \<Longrightarrow> alive (w_player (main_loop inps w))"
  by (induction inps arbitrary: w) (simp_all add: main_iteration_alive)

lemma initial_alive: "alive (w_player initial_world)"
  by (simp add: initial_world_def create_level_1_1_def Player_def)

text \<open>
  Claim C6. Along every run of the main loop from the initial world, whatever the events
  and held keys, the player's \<open>vel_x\<close> stays within \<open>[- PLAYER_MAX_SPEED, PLAYER_MAX_SPEED]\<close>,
  and \<open>Player.update\<close> keeps any \<open>vel_x\<close> that is in the range inside it. Holding left
  gives \<open>max (vel_x - PLAYER_ACCEL) (- PLAYER_MAX_SPEED)\<close>, holding right (and not left)
  gives \<open>min (vel_x + PLAYER_ACCEL) PLAYER_MAX_SPEED\<close>; with no direction held a positive
  \<open>vel_x\<close> becomes \<open>max 0 (vel_x - PLAYER_DECEL)\<close> and a negative one
  \<open>min 0 (vel_x + PLAYER_DECEL)\<close>, so the speed moves toward zero and never changes sign.
  (\<open>apply_input\<close> does nothing for a player that is not alive; along every run from the
  initial world the player is alive.)
\<close>

theorem horizontal_speed_stays_clamped:
  "(\<forall>inps. - PLAYER_MAX_SPEED \<le> vel_x (w_player (main_loop inps initial_world))
          \<and> vel_x (w_player (main_loop inps initial_world)) \<le> PLAYER_MAX_SPEED
          \<and> alive (w_player (main_loop inps initial_world)))
   \<and> (- PLAYER_MAX_SPEED \<le> vel_x p \<and> vel_x p \<le> PLAYER_MAX_SPEED \<longrightarrow>
        - PLAYER_MAX_SPEED \<le> vel_x (fst (player_update ks p pls))
        \<and> vel_x (fst (player_update ks p pls)) \<le> PLAYER_MAX_SPEED)
   \<and> (alive p \<and> (K_LEFT ks \<or> K_a ks) \<longrightarrow>
        vel_x (fst (apply_input ks p)) = max (vel_x p - PLAYER_ACCEL) (- PLAYER_MAX_SPEED))
   \<and> (alive p \<and> \<not> (K_LEFT ks \<or> K_a ks) \<and> (K_RIGHT ks \<or> K_d ks) \<longrightarrow>
        vel_x (fst (apply_input ks p)) = min (vel_x p + PLAYER_ACCEL) PLAYER_MAX_SPEED)
   \<and> (alive p \<and> \<not> (K_LEFT ks \<or> K_a ks) \<and> \<not> (K_RIGHT ks \<or> K_d ks) \<longrightarrow>
        vel_x (fst (apply_input ks p)) =
          (if vel_x p > 0 then max 0 (vel_x p - PLAYER_DECEL)
           else if vel_x p < 0 then min 0 (vel_x p + PLAYER_DECEL) else 0))
   \<and> (\<not> (K_LEFT ks \<or> K_a ks) \<and> \<not> (K_RIGHT ks \<or> K_d ks) \<longrightarrow>
        (0 \<le> vel_x p \<longrightarrow> 0 \<le> vel_x (fst (apply_input ks p)) \<and> vel_x (fst (apply_input ks p)) \<le> vel_x p)
        \<and> (vel_x p \<le> 0 \<longrightarrow> vel_x p \<le> vel_x (fst (apply_input ks p)) \<and> vel_x (fst (apply_input ks p)) \<le> 0))"
proof -
  have 0: "in_speed_range (vel_x (w_player initial_world))"
    by (simp add: initial_world_def create_level_1_1_def Player_def in_speed_range_0)
  have a: "\<forall>inps. - PLAYER_MAX_SPEED \<le> vel_x (w_player (main_loop inps initial_world))
          \<and> vel_x (w_player (main_loop inps initial_world)) \<le> PLAYER_MAX_SPEED
          \<and> alive (w_player (main_loop inps initial_world))"
    using main_loop_speed [OF 0] main_loop_alive [OF initial_alive]
    by (simp add: in_speed_range_def)
  have b: "- PLAYER_MAX_SPEED \<le> vel_x p \<and> vel_x p \<le> PLAYER_MAX_SPEED \<longrightarrow>
        - PLAYER_MAX_SPEED \<le> vel_x (fst (player_update ks p pls))
        \<and> vel_x (fst (player_update ks p pls)) \<le> PLAYER_MAX_SPEED"
    using player_update_speed [of p ks pls] by (simp add: in_speed_range_def)
  have c: "alive p \<and> (K_LEFT ks \<or> K_a ks) \<longrightarrow>
        vel_x (fst (apply_input ks p)) = max (vel_x p - PLAYER_ACCEL) (- PLAYER_MAX_SPEED)"
    by (simp add: apply_input_vel_x)
  have d: "alive p \<and> \<not> (K_LEFT ks \<or> K_a ks) \<and> (K_RIGHT ks \<or> K_d ks) \<longrightarrow>
        vel_x (fst (apply_input ks p)) = min (vel_x p + PLAYER_ACCEL) PLAYER_MAX_SPEED"
    by (simp add: apply_input_vel_x)
  have e: "alive p \<and> \<not> (K_LEFT ks \<or> K_a ks) \<and> \<not> (K_RIGHT ks \<or> K_d ks) \<longrightarrow>
        vel_x (fst (apply_input ks p)) =
          (if vel_x p > 0 then max 0 (vel_x p - PLAYER_DECEL)
           else if vel_x p < 0 then min 0 (vel_x p + PLAYER_DECEL) else 0)"
    by (simp add: apply_input_vel_x)
  have f: "\<not> (K_LEFT ks \<or> K_a ks) \<and> \<not> (K_RIGHT ks \<or> K_d ks) \<longrightarrow>
        (0 \<le> vel_x p \<longrightarrow> 0 \<le> vel_x (fst (apply_input ks p)) \<and> vel_x (fst (apply_input ks p)) \<le> vel_x p)
        \<and> (vel_x p \<le> 0 \<longrightarrow> vel_x p \<le> vel_x (fst (apply_input ks p)) \<and> vel_x (fst (apply_input ks p)) \<le> 0)"
    unfolding apply_input_vel_x PLAYER_DECEL_def max_def min_def
    by (cases "alive p") simp_all
  from a b c d e f show ?thesis by blast
qed

theorem horizontal_speed_witness:
  "- PLAYER_MAX_SPEED \<le> vel_x fast_player \<and> vel_x fast_player \<le> PLAYER_MAX_SPEED
   \<and> alive fast_player \<and> \<not> (K_LEFT right_keys \<or> K_a right_keys)
   \<and> (K_RIGHT right_keys \<or> K_d right_keys)
   \<and> vel_x (fst (apply_input right_keys fast_player)) = PLAYER_MAX_SPEED
   \<and> vel_x (fst (player_update right_keys fast_player (fst create_level_1_1))) \<le> PLAYER_MAX_SPEED
   \<and> alive slow_player \<and> \<not> (K_LEFT no_keys \<or> K_a no_keys) \<and> \<not> (K_RIGHT no_keys \<or> K_d no_keys)
   \<and> 0 < vel_x slow_player
   \<and> vel_x (fst (apply_input no_keys slow_player)) = 0"
  using horizontal_speed_stays_clamped [of fast_player right_keys "fst create_level_1_1"]
    horizontal_speed_stays_clamped [of slow_player no_keys "fst create_level_1_1"]
  by (simp add: fast_player_def slow_player_def Player_def right_keys_def no_keys_def
      PLAYER_MAX_SPEED_def PLAYER_ACCEL_def PLAYER_DECEL_def)

section \<open>The two resolution loops\<close>

lemma vel_x_stopped: "vel_x (p::player) = 0 \<Longrightarrow> p\<lparr>vel_x := 0\<rparr> = p"
proof -
  assume "vel_x p = 0"
  then have "p\<lparr>vel_x := 0\<rparr> = p\<lparr>vel_x := vel_x p\<rparr>" by simp
  then show ?thesis by simp
qed

lemma physics_resolve_x_stopped: "vel_x p = 0 \<Longrightarrow> physics_resolve_x p pls = p"
  by (induction pls) (simp_all add: vel_x_stopped)

lemma physics_resolve_y_stopped: "vel_y p = 0 \<Longrightarrow> physics_resolve_y p pls = p"
  by (induction pls) simp_all

lemma physics_resolve_x_find:
  "physics_resolve_x p pls =
     (case find (overlaps p) pls of
        None \<Rightarrow> p
      | Some pl \<Rightarrow> (if vel_x p > 0 then p\<lparr>x := x pl - width p\<rparr>
                    else if vel_x p < 0 then p\<lparr>x := x pl + width pl\<rparr>
                    else p)\<lparr>vel_x := 0\<rparr>)"
proof (induction pls)
  case Nil
  show ?case by simp
next
  case (Cons pl pls)
  show ?case
  proof (cases "overlaps p pl")
    case True
    then show ?thesis by (simp add: physics_resolve_x_stopped)
  next
    case False
    then show ?thesis using Cons.IH by simp
  qed
qed

lemma physics_resolve_y_find:
  "physics_resolve_y p pls =
     (case find (overlaps p) pls of
        None \<Rightarrow> p
      | Some pl \<Rightarrow> (if vel_y p > 0 then p\<lparr>y := y pl - height p, vel_y := 0, grounded := True\<rparr>
                    else if vel_y p < 0 then p\<lparr>y := y pl + height pl, vel_y := 0\<rparr>
                    else p))"
proof (induction pls)
  case Nil
  show ?case by simp
next
  case (Cons pl pls)
  show ?case
  proof (cases "overlaps p pl")
    case True
    then show ?thesis by (simp add: physics_resolve_y_stopped)
  next
    case False
    then show ?thesis using Cons.IH by simp
  qed
qed

lemma find_overlaps_first:
  "find (overlaps p) pls = Some pl \<Longrightarrow> pl \<in> set pls \<and> overlaps p pl"
  by (auto simp: find_Some_iff)

lemma find_overlaps_none:
  "find (overlaps p) pls = None \<longleftrightarrow> (\<forall>pl \<in> set pls. \<not> overlaps p pl)"
  by (auto simp: find_None_iff)

section \<open>Horizontal resolution (claim C2)\<close>

lemma overlaps_moved:
  "overlaps (p\<lparr>vel_y := v, x := a\<rparr>) pl = overlaps ((p::player)\<lparr>x := a\<rparr>) pl"
  by (simp add: overlaps_def)

lemma physics_horizontal_find:
  "physics_horizontal p pls =
     (case find (overlaps (p\<lparr>x := x p + vel_x p\<rparr>)) pls of
        None \<Rightarrow> p\<lparr>vel_y := vel_y p + GRAVITY, x := x p + vel_x p\<rparr>
      | Some pl \<Rightarrow>
          (if vel_x p > 0 then p\<lparr>vel_y := vel_y p + GRAVITY, x := x pl - width p\<rparr>
           else if vel_x p < 0 then p\<lparr>vel_y := vel_y p + GRAVITY, x := x pl + width pl\<rparr>
           else p\<lparr>vel_y := vel_y p + GRAVITY, x := x p + vel_x p\<rparr>)\<lparr>vel_x := 0\<rparr>)"
proof -
  have e: "(overlaps (p\<lparr>vel_y := vel_y p + GRAVITY, x := x p + vel_x p\<rparr>) :: platform \<Rightarrow> bool)
      = overlaps (p\<lparr>x := x p + vel_x p\<rparr>)"
    by (rule ext) (simp add: overlaps_def)
  have h: "physics_horizontal p pls =
      physics_resolve_x (p\<lparr>vel_y := vel_y p + GRAVITY, x := x p + vel_x p\<rparr>) pls"
    unfolding physics_horizontal_def Let_def by simp
  show ?thesis
    unfolding h physics_resolve_x_find e
    by (simp split: option.splits)
qed

lemma physics_x: "x (physics p pls) = x (physics_horizontal p pls)"
  by (simp add: physics_def physics_resolve_y_find physics_move_y_def split: option.splits)

lemma physics_width: "width (physics p pls) = width p"
  by (simp add: physics_def physics_resolve_y_find physics_move_y_def physics_horizontal_find
      split: option.splits)

lemma physics_vel_x_h: "vel_x (physics p pls) = vel_x (physics_horizontal p pls)"
  by (simp add: physics_def physics_resolve_y_find physics_move_y_def split: option.splits)

text \<open>
  Claim C2, as amended. Let \<open>pl\<close> be the first platform in list order that the player's box
  intersects after \<open>vel_x\<close> was added to \<open>x\<close>, and let the player not intersect \<open>pl\<close> before.
  Then \<open>vel_x\<close> is not zero, and horizontal resolution leaves the player flush with \<open>pl\<close>:
  the right edge at the left edge of \<open>pl\<close> when \<open>vel_x > 0\<close>, the left edge at the right
  edge of \<open>pl\<close> when \<open>vel_x < 0\<close>, and \<open>vel_x = 0\<close> afterwards; the vertical phase changes
  none of this. Platforms later in the list do not move the player, since \<open>vel_x\<close> is
  already zero when they are tested.
\<close>

theorem horizontal_resolution_first_platform:
  assumes "find (overlaps (p\<lparr>x := x p + vel_x p\<rparr>)) pls = Some pl"
    and "\<not> overlaps p pl"
  shows "(vel_x p > 0 \<or> vel_x p < 0)
    \<and> (vel_x p > 0 \<longrightarrow> x (physics_horizontal p pls) + width (physics_horizontal p pls) = x pl)
    \<and> (vel_x p < 0 \<longrightarrow> x (physics_horizontal p pls) = x pl + width pl)
    \<and> vel_x (physics_horizontal p pls) = 0
    \<and> x (physics p pls) = x (physics_horizontal p pls)
    \<and> width (physics p pls) = width (physics_horizontal p pls)
    \<and> vel_x (physics p pls) = 0"
proof -
  from assms(1) have o: "overlaps (p\<lparr>x := x p + vel_x p\<rparr>) pl"
    by (simp add: find_overlaps_first)
  have nz: "vel_x p > 0 \<or> vel_x p < 0"
  proof (rule ccontr)
    assume "\<not> (vel_x p > 0 \<or> vel_x p < 0)"
    then have "vel_x p = 0" by simp
    with o have "overlaps p pl" by (simp add: overlaps_def)
    with assms(2) show False by simp
  qed
  have a: "vel_x p > 0 \<longrightarrow> x (physics_horizontal p pls) + width (physics_horizontal p pls) = x pl"
    using assms(1) by (simp add: physics_horizontal_find)
  have b: "vel_x p < 0 \<longrightarrow> x (physics_horizontal p pls) = x pl + width pl"
    using assms(1) by (simp add: physics_horizontal_find)
  have c: "vel_x (physics_horizontal p pls) = 0"
    using assms(1) by (simp add: physics_horizontal_find)
  have d: "width (physics p pls) = width (physics_horizontal p pls)"
    by (simp add: physics_width physics_horizontal_find split: option.splits)
  from nz a b c d show ?thesis
    by (simp add: physics_x physics_vel_x_h)
qed

text \<open>
  The claim as stated fails when two platforms are entered in the same tick: the player
  is left flush with the first of them, not with the last, which it still overlaps.
\<close>

theorem horizontal_resolution_last_platform_counterexample:
  "\<not> overlaps walking_player (Platform (17 / 2) 100 10 16)
   \<and> overlaps (walking_player\<lparr>x := x walking_player + vel_x walking_player\<rparr>) (Platform (17 / 2) 100 10 16)
   \<and> vel_x walking_player > 0
   \<and> last two_walls = Platform (17 / 2) 100 10 16
   \<and> x (physics_horizontal walking_player two_walls) + width (physics_horizontal walking_player two_walls) = 9
   \<and> x (physics_horizontal walking_player two_walls) + width (physics_horizontal walking_player two_walls)
        \<noteq> x (Platform (17 / 2) 100 10 16)"
  unfolding physics_horizontal_def Let_def two_walls_def
  by (simp add: walking_player_def Player_def Platform_def overlaps_def)

theorem horizontal_resolution_witness:
  "find (overlaps (walking_player\<lparr>x := x walking_player + vel_x walking_player\<rparr>)) two_walls
     = Some (Platform 9 100 10 16)
   \<and> \<not> overlaps walking_player (Platform 9 100 10 16)
   \<and> vel_x walking_player > 0
   \<and> x (physics walking_player two_walls) + width (physics walking_player two_walls) = 9
   \<and> vel_x (physics walking_player two_walls) = 0"
proof -
  have f: "find (overlaps (walking_player\<lparr>x := x walking_player + vel_x walking_player\<rparr>)) two_walls
     = Some (Platform 9 100 10 16)"
    by (simp add: walking_player_def Player_def two_walls_def Platform_def overlaps_def)
  have n: "\<not> overlaps walking_player (Platform 9 100 10 16)"
    by (simp add: walking_player_def Player_def Platform_def overlaps_def)
  have v: "vel_x walking_player > 0"
    by (simp add: walking_player_def Player_def)
  from horizontal_resolution_first_platform [OF f n] v
  have "x (physics walking_player two_walls) + width (physics walking_player two_walls) = x (Platform 9 100 10 16)
     \<and> vel_x (physics walking_player two_walls) = 0"
    by simp
  with f n v show ?thesis by (simp add: Platform_def)
qed

section \<open>Jumping (claim C9)\<close>



lemma player_update_parts:
  "vel_y (fst (player_update ks p pls)) = vel_y (physics (fst (apply_input ks p)) pls)
   \<and> grounded (fst (player_update ks p pls)) = grounded (physics (fst (apply_input ks p)) pls)
   \<and> x (fst (player_update ks p pls)) = x (physics (fst (apply_input ks p)) pls)
   \<and> y (fst (player_update ks p pls)) = y (physics (fst (apply_input ks p)) pls)
   \<and> snd (player_update ks p pls) = snd (apply_input ks p)"
  unfolding player_update_def Let_def
  by (simp add: split_beta)

lemma physics_horizontal_vel_y: "vel_y (physics_horizontal p pls) = vel_y p + GRAVITY"
  by (simp add: physics_horizontal_find split: option.splits)









section \<open>Vertical resolution (claim C3)\<close>

lemma physics_resolve_y_height: "height (physics_resolve_y p pls) = height p"
  by (simp add: physics_resolve_y_find split: option.splits)

text \<open>
  Claim C3, as amended. In \<open>Player.physics\<close>, after the horizontal phase, \<open>vel_y\<close> (which
  already includes this tick's gravity) is added to \<open>y\<close> and \<open>grounded\<close> is reset to
  false; call the player in that state \<open>m\<close>. If no platform overlaps the box of \<open>m\<close>,
  \<open>physics\<close> returns \<open>m\<close>. Otherwise, with \<open>pl\<close> the first platform in list order that
  overlaps it: when falling (\<open>vel_y > 0\<close>) the player's bottom edge is at the top of \<open>pl\<close>,
  \<open>vel_y\<close> is 0 and \<open>grounded\<close> is true; when rising (\<open>vel_y < 0\<close>) the player's top edge is
  at the bottom of \<open>pl\<close>, \<open>vel_y\<close> is 0 and \<open>grounded\<close> is still false. Platforms later in the
  list change nothing, because the loop leaves a player with \<open>vel_y = 0\<close> as it is. So
  falling onto a platform always gives \<open>grounded\<close> and \<open>vel_y = 0\<close>, rising into one
  always gives \<open>vel_y = 0\<close> with \<open>grounded\<close> false, and \<open>Player.update\<close> hands these values
  on unchanged.
\<close>

theorem vertical_resolution_first_platform:
  "y (physics_move_y (physics_horizontal p pls)) = y (physics_horizontal p pls) + (vel_y p + GRAVITY)
   \<and> vel_y (physics_move_y (physics_horizontal p pls)) = vel_y p + GRAVITY
   \<and> \<not> grounded (physics_move_y (physics_horizontal p pls))
   \<and> (find (overlaps (physics_move_y (physics_horizontal p pls))) pls = None \<longrightarrow>
        physics p pls = physics_move_y (physics_horizontal p pls))
   \<and> (\<forall>pl. find (overlaps (physics_move_y (physics_horizontal p pls))) pls = Some pl
          \<and> vel_y p + GRAVITY > 0 \<longrightarrow>
        y (physics p pls) + height (physics p pls) = y pl
        \<and> vel_y (physics p pls) = 0 \<and> grounded (physics p pls))
   \<and> (\<forall>pl. find (overlaps (physics_move_y (physics_horizontal p pls))) pls = Some pl
          \<and> vel_y p + GRAVITY < 0 \<longrightarrow>
        y (physics p pls) = y pl + height pl
        \<and> vel_y (physics p pls) = 0 \<and> \<not> grounded (physics p pls))
   \<and> ((\<exists>pl \<in> set pls. overlaps (physics_move_y (physics_horizontal p pls)) pl)
          \<and> vel_y p + GRAVITY > 0 \<longrightarrow>
        vel_y (physics p pls) = 0 \<and> grounded (physics p pls))
   \<and> ((\<exists>pl \<in> set pls. overlaps (physics_move_y (physics_horizontal p pls)) pl)
          \<and> vel_y p + GRAVITY < 0 \<longrightarrow>
        vel_y (physics p pls) = 0 \<and> \<not> grounded (physics p pls))
   \<and> (\<forall>q. vel_y q = 0 \<longrightarrow> physics_resolve_y q pls = q)
   \<and> y (fst (player_update ks p pls)) = y (physics (fst (apply_input ks p)) pls)
   \<and> vel_y (fst (player_update ks p pls)) = vel_y (physics (fst (apply_input ks p)) pls)
   \<and> grounded (fst (player_update ks p pls)) = grounded (physics (fst (apply_input ks p)) pls)"
proof -
  let ?m = "physics_move_y (physics_horizontal p pls)"
  let ?r = "physics p pls"
  have r: "?r = physics_resolve_y ?m pls"
    by (simp add: physics_def)
  have m: "y ?m = y (physics_horizontal p pls) + (vel_y p + GRAVITY)"
    "vel_y ?m = vel_y p + GRAVITY" "\<not> grounded ?m"
    by (simp_all add: physics_move_y_def physics_horizontal_vel_y)
  have b: "find (overlaps ?m) pls = None \<longrightarrow> ?r = ?m"
    by (simp add: r physics_resolve_y_find)
  have c: "\<forall>pl. find (overlaps ?m) pls = Some pl \<and> vel_y p + GRAVITY > 0 \<longrightarrow>
        y ?r + height ?r = y pl \<and> vel_y ?r = 0 \<and> grounded ?r"
    unfolding r physics_resolve_y_height
    by (simp add: physics_resolve_y_find m)
  have d: "\<forall>pl. find (overlaps ?m) pls = Some pl \<and> vel_y p + GRAVITY < 0 \<longrightarrow>
        y ?r = y pl + height pl \<and> vel_y ?r = 0 \<and> \<not> grounded ?r"
    unfolding r by (auto simp: physics_resolve_y_find m)
  have ex: "\<exists>pl. find (overlaps ?m) pls = Some pl" if "\<exists>pl \<in> set pls. overlaps ?m pl"
    using that find_overlaps_none [of ?m pls] by (cases "find (overlaps ?m) pls") auto
  have e: "(\<exists>pl \<in> set pls. overlaps ?m pl) \<and> vel_y p + GRAVITY > 0 \<longrightarrow>
        vel_y ?r = 0 \<and> grounded ?r"
    using c ex by blast
  have f: "(\<exists>pl \<in> set pls. overlaps ?m pl) \<and> vel_y p + GRAVITY < 0 \<longrightarrow>
        vel_y ?r = 0 \<and> \<not> grounded ?r"
    using d ex by blast
  have g: "\<forall>q. vel_y q = 0 \<longrightarrow> physics_resolve_y q pls = q"
    by (simp add: physics_resolve_y_stopped)
  from m b c d e f g player_update_parts [of ks p pls] show ?thesis by blast
qed

text \<open>
  The claim as stated fails when the moved box overlaps two platforms with different
  tops: the falling player is put on the first of them and still overlaps the second,
  whose top its bottom edge was not snapped to.
\<close>

theorem vertical_resolution_second_platform_counterexample:
  "overlaps (physics_move_y (physics_horizontal dropping_player stacked_floors)) (Platform 0 127 200 16)
   \<and> Platform 0 127 200 16 \<in> set stacked_floors
   \<and> vel_y (physics_move_y (physics_horizontal dropping_player stacked_floors)) > 0
   \<and> y (physics dropping_player stacked_floors) + height (physics dropping_player stacked_floors) = 128
   \<and> y (physics dropping_player stacked_floors) + height (physics dropping_player stacked_floors)
        \<noteq> y (Platform 0 127 200 16)
   \<and> overlaps (physics dropping_player stacked_floors) (Platform 0 127 200 16)"
  unfolding physics_def physics_horizontal_def physics_move_y_def Let_def stacked_floors_def
  by (simp add: dropping_player_def Player_def Platform_def overlaps_def GRAVITY_def)

lemma landing_find:
  "find (overlaps (physics_move_y (physics_horizontal landing_player (fst create_level_1_1))))
     (fst create_level_1_1) = Some (Platform 0 128 200 16)"
  unfolding physics_horizontal_def physics_move_y_def Let_def
  by (simp add: landing_player_def Player_def create_level_1_1_def Platform_def overlaps_def
      GRAVITY_def)

lemma rising_find:
  "find (overlaps (physics_move_y (physics_horizontal rising_player (fst create_level_1_1))))
     (fst create_level_1_1) = Some (Platform 160 96 32 16)"
  unfolding physics_horizontal_def physics_move_y_def Let_def
  by (simp add: rising_player_def Player_def create_level_1_1_def Platform_def overlaps_def
      GRAVITY_def)

theorem vertical_resolution_witness:
  "find (overlaps (physics_move_y (physics_horizontal landing_player (fst create_level_1_1))))
     (fst create_level_1_1) = Some (Platform 0 128 200 16)
   \<and> vel_y landing_player + GRAVITY > 0
   \<and> y (physics landing_player (fst create_level_1_1))
        + height (physics landing_player (fst create_level_1_1)) = 128
   \<and> vel_y (physics landing_player (fst create_level_1_1)) = 0
   \<and> grounded (physics landing_player (fst create_level_1_1))
   \<and> find (overlaps (physics_move_y (physics_horizontal rising_player (fst create_level_1_1))))
     (fst create_level_1_1) = Some (Platform 160 96 32 16)
   \<and> vel_y rising_player + GRAVITY < 0
   \<and> y (physics rising_player (fst create_level_1_1)) = 112
   \<and> vel_y (physics rising_player (fst create_level_1_1)) = 0
   \<and> \<not> grounded (physics rising_player (fst create_level_1_1))"
proof -
  have l: "vel_y landing_player + GRAVITY > 0"
    by (simp add: landing_player_def Player_def GRAVITY_def)
  have r: "vel_y rising_player + GRAVITY < 0"
    by (simp add: rising_player_def Player_def GRAVITY_def)
  from vertical_resolution_first_platform [of landing_player "fst create_level_1_1" no_keys]
    landing_find l
  have 1: "y (physics landing_player (fst create_level_1_1))
        + height (physics landing_player (fst create_level_1_1)) = y (Platform 0 128 200 16)
      \<and> vel_y (physics landing_player (fst create_level_1_1)) = 0
      \<and> grounded (physics landing_player (fst create_level_1_1))"
    by blast
  from vertical_resolution_first_platform [of rising_player "fst create_level_1_1" no_keys]
    rising_find r
  have 2: "y (physics rising_player (fst create_level_1_1))
        = y (Platform 160 96 32 16) + height (Platform 160 96 32 16)
      \<and> vel_y (physics rising_player (fst create_level_1_1)) = 0
      \<and> \<not> grounded (physics rising_player (fst create_level_1_1))"
    by blast
  from 1 2 l r landing_find rising_find show ?thesis
    by (simp add: Platform_def)
qed

section \<open>Coins (claim C8)\<close>

lemma overlaps_coin_update: "overlaps p (coin_update c) = overlaps p c"
  by (simp add: overlaps_def coin_update_def)

lemma bounding_box_coin_update: "bounding_box (coin_update c) = bounding_box c"
  by (simp add: bounding_box_def coin_update_def)

lemma update_coins_eq:
  "update_coins p cs gs =
     (map coin_update (filter (\<lambda>c. \<not> overlaps p c) cs),
      gs\<lparr>coins := coins gs + int (length (filter (overlaps p) cs)),
         score := score gs + 200 * int (length (filter (overlaps p) cs))\<rparr>,
      replicate (length (filter (overlaps p) cs)) SfxCoin)"
proof (induction cs arbitrary: gs)
  case Nil
  show ?case by simp
next
  case (Cons c cs)
  show ?case
  proof (cases "overlaps p c")
    case True
    then show ?thesis
      by (simp add: Cons.IH overlaps_coin_update Let_def algebra_simps)
  next
    case False
    then show ?thesis
      by (simp add: Cons.IH overlaps_coin_update Let_def)
  qed
qed

lemma update_game_timer_coins:
  "coins (fst (update_game_timer gs)) = coins gs \<and> score (fst (update_game_timer gs)) = score gs
   \<and> SfxCoin \<notin> set (snd (update_game_timer gs))"
  by (simp add: update_game_timer_def Let_def)

lemma check_fell_off_screen_coins:
  "coins (fst (fst (check_fell_off_screen (gs, p, cam)))) = coins gs
   \<and> score (fst (fst (check_fell_off_screen (gs, p, cam)))) = score gs
   \<and> SfxCoin \<notin> set (snd (check_fell_off_screen (gs, p, cam)))"
  by (simp add: check_fell_off_screen_def Let_def)

lemma apply_input_sounds: "SfxCoin \<notin> set (snd (apply_input ks p))"
  unfolding apply_input_def Let_def by simp

lemma player_update_sounds: "SfxCoin \<notin> set (snd (player_update ks p pls))"
  unfolding player_update_def Let_def
  by (simp add: split_beta apply_input_sounds)

lemma check_goal_sounds: "SfxCoin \<notin> set (snd (check_goal p g gs))"
  by (simp add: check_goal_def)

lemma playing_tick_coins:
  "w_coins (playing_tick ks w) =
     map coin_update (filter (\<lambda>c. \<not> overlaps (w_player (playing_tick ks w)) c) (w_coins w))
   \<and> coins (w_game_state (playing_tick ks w)) =
       coins (w_game_state w) + int (length (filter (overlaps (w_player (playing_tick ks w))) (w_coins w)))
   \<and> score (w_game_state (playing_tick ks w)) =
       score (w_game_state w) + 200 * int (length (filter (overlaps (w_player (playing_tick ks w))) (w_coins w)))
   \<and> length (filter (\<lambda>s. s = SfxCoin) (drop (length (w_sounds w)) (w_sounds (playing_tick ks w)))) =
       length (filter (overlaps (w_player (playing_tick ks w))) (w_coins w))"
proof -
  obtain gs1 snd1 where t: "update_game_timer (w_game_state w) = (gs1, snd1)"
    by (cases "update_game_timer (w_game_state w)")
  obtain p1 snd2 where u: "player_update ks (w_player w) (w_platforms w) = (p1, snd2)"
    by (cases "player_update ks (w_player w) (w_platforms w)")
  obtain gs2 p2 cam2 snd3 where f: "check_fell_off_screen (gs1, p1, w_camera w) = ((gs2, p2, cam2), snd3)"
    by (cases "check_fell_off_screen (gs1, p1, w_camera w)") auto
  obtain cs1 gs3 snd4 where c: "update_coins p2 (w_coins w) gs2 = (cs1, gs3, snd4)"
    by (cases "update_coins p2 (w_coins w) gs2") auto
  obtain gs4 snd5 where g: "check_goal p2 (w_goal w) gs3 = (gs4, snd5)"
    by (cases "check_goal p2 (w_goal w) gs3")
  note tick = playing_tick_parts [OF t u f c g]
  let ?n = "length (filter (overlaps p2) (w_coins w))"
  have 1: "coins gs1 = coins (w_game_state w)" "score gs1 = score (w_game_state w)" "SfxCoin \<notin> set snd1"
    using update_game_timer_coins [of "w_game_state w"] t by simp_all
  have 2: "coins gs2 = coins gs1" "score gs2 = score gs1" "SfxCoin \<notin> set snd3"
    using check_fell_off_screen_coins [of gs1 p1 "w_camera w"] f by simp_all
  have 3: "cs1 = map coin_update (filter (\<lambda>c. \<not> overlaps p2 c) (w_coins w))"
    "coins gs3 = coins gs2 + int ?n" "score gs3 = score gs2 + 200 * int ?n"
    "snd4 = replicate ?n SfxCoin"
    using c unfolding update_coins_eq by auto
  have 4: "coins gs4 = coins gs3" "score gs4 = score gs3" "SfxCoin \<notin> set snd5"
    using check_goal_frame [of p2 "w_goal w" gs3] check_goal_sounds [of p2 "w_goal w" gs3] g
    by simp_all
  have 5: "SfxCoin \<notin> set snd2"
    using player_update_sounds [of ks "w_player w" "w_platforms w"] u by simp
  have n: "filter (\<lambda>s. s = SfxCoin) l = []" if "SfxCoin \<notin> set l" for l
    using that by (induction l) auto
  have "length (filter (\<lambda>s. s = SfxCoin) (snd1 @ snd2 @ snd3 @ snd4 @ snd5)) = ?n"
    by (simp add: n 1 2 3 4 5)
  then show ?thesis
    by (simp add: tick 1 2 3 4)
qed

lemma playing_tick_coin_count:
  "coins (w_game_state (playing_tick ks w)) + int (length (w_coins (playing_tick ks w)))
     = coins (w_game_state w) + int (length (w_coins w))"
proof -
  let ?p = "w_player (playing_tick ks w)"
  have "length (filter (overlaps ?p) (w_coins w)) + length (filter (\<lambda>c. \<not> overlaps ?p c) (w_coins w))
      = length (w_coins w)"
    by (rule sum_length_filter_compl)
  then have "int (length (filter (overlaps ?p) (w_coins w)))
      + int (length (filter (\<lambda>c. \<not> overlaps ?p c) (w_coins w))) = int (length (w_coins w))"
    by linarith
  moreover have "length (w_coins (playing_tick ks w)) = length (filter (\<lambda>c. \<not> overlaps ?p c) (w_coins w))"
    using playing_tick_coins [of ks w] by simp
  ultimately show ?thesis
    using playing_tick_coins [of ks w] by simp
qed

lemma playing_tick_coin_boxes:
  "subseq (map bounding_box (w_coins (playing_tick ks w))) (map bounding_box (w_coins w))"
proof -
  let ?p = "w_player (playing_tick ks w)"
  have "map bounding_box (w_coins (playing_tick ks w))
      = map bounding_box (filter (\<lambda>c. \<not> overlaps ?p c) (w_coins w))"
    using playing_tick_coins [of ks w] by (simp add: bounding_box_coin_update comp_def)
  then show ?thesis
    by (simp add: subseq_map)
qed

lemma handle_event_coins:
  "e \<noteq> KEYDOWN K_RETURN \<Longrightarrow>
     w_coins (handle_event e w) = w_coins w \<and> coins (w_game_state (handle_event e w)) = coins (w_game_state w)"
  by (cases "(e, w)" rule: handle_event.cases) auto

lemma handle_events_coins:
  "KEYDOWN K_RETURN \<notin> set es \<Longrightarrow>
     w_coins (handle_events es w) = w_coins w \<and> coins (w_game_state (handle_events es w)) = coins (w_game_state w)"
  by (induction es arbitrary: w) (auto simp: handle_event_coins)

lemma main_iteration_coins:
  assumes "KEYDOWN K_RETURN \<notin> set (fst inp)"
  shows "coins (w_game_state (main_iteration inp w)) + int (length (w_coins (main_iteration inp w)))
       = coins (w_game_state w) + int (length (w_coins w))
     \<and> subseq (map bounding_box (w_coins (main_iteration inp w))) (map bounding_box (w_coins w))"
proof -
  let ?w = "handle_events (fst inp) w"
  note h = handle_events_coins [OF assms, of w]
  show ?thesis
  proof (cases "state (w_game_state ?w) = PLAYING")
    case True
    then have "main_iteration inp w = playing_tick (snd inp) ?w"
      by (simp add: main_iteration_def)
    then show ?thesis
      using playing_tick_coin_count [of "snd inp" ?w] playing_tick_coin_boxes [of "snd inp" ?w] h
      by simp
  next
    case False
    then have "main_iteration inp w = ?w"
      by (simp add: main_iteration_def)
    then show ?thesis using h by simp
  qed
qed

lemma main_loop_coins:
  "no_restart inps \<Longrightarrow>
     coins (w_game_state (main_loop inps w)) + int (length (w_coins (main_loop inps w)))
       = coins (w_game_state w) + int (length (w_coins w))
     \<and> subseq (map bounding_box (w_coins (main_loop inps w))) (map bounding_box (w_coins w))"
proof (induction inps arbitrary: w)
  case Nil
  show ?case by simp
next
  case (Cons inp inps)
  from Cons.prems have a: "KEYDOWN K_RETURN \<notin> set (fst inp)" and b: "no_restart inps"
    by (simp_all add: no_restart_def)
  show ?case
  proof (cases "w_running w")
    case False
    then show ?thesis by simp
  next
    case True
    from Cons.IH [OF b, of "main_iteration inp w"] main_iteration_coins [OF a, of w] True
    show ?thesis
      by (auto intro: subseq_order.trans)
  qed
qed

text \<open>
  Claim C8. The coin loop of a tick keeps exactly the coins that do not overlap the player
  (with their animation advanced), adds 1 to \<open>coins\<close> and 200 to \<open>score\<close> for every coin that
  does, and plays one coin effect for each; no kept coin overlaps the player. The same
  holds for the whole \<open>PLAYING\<close> tick, with the player as it is after the fall check. As
  long as the level is not rebuilt, the coin counter plus the number of active coins is
  constant and the active coins are a sublist of the earlier ones, so a removed coin is
  never tested or counted again.
\<close>

theorem coins_are_collected_once:
  "update_coins p cs gs =
     (map coin_update (filter (\<lambda>c. \<not> overlaps p c) cs),
      gs\<lparr>coins := coins gs + int (length (filter (overlaps p) cs)),
         score := score gs + 200 * int (length (filter (overlaps p) cs))\<rparr>,
      replicate (length (filter (overlaps p) cs)) SfxCoin)
   \<and> (\<forall>c \<in> set (fst (update_coins p cs gs)). \<not> overlaps p c)
   \<and> w_coins (playing_tick ks w) =
       map coin_update (filter (\<lambda>c. \<not> overlaps (w_player (playing_tick ks w)) c) (w_coins w))
   \<and> coins (w_game_state (playing_tick ks w)) =
       coins (w_game_state w) + int (length (filter (overlaps (w_player (playing_tick ks w))) (w_coins w)))
   \<and> score (w_game_state (playing_tick ks w)) =
       score (w_game_state w) + 200 * int (length (filter (overlaps (w_player (playing_tick ks w))) (w_coins w)))
   \<and> length (filter (\<lambda>s. s = SfxCoin) (drop (length (w_sounds w)) (w_sounds (playing_tick ks w)))) =
       length (filter (overlaps (w_player (playing_tick ks w))) (w_coins w))
   \<and> (no_restart inps \<longrightarrow>
        coins (w_game_state (main_loop inps w)) + int (length (w_coins (main_loop inps w)))
          = coins (w_game_state w) + int (length (w_coins w))
        \<and> subseq (map bounding_box (w_coins (main_loop inps w))) (map bounding_box (w_coins w)))"
proof -
  have "\<forall>c \<in> set (fst (update_coins p cs gs)). \<not> overlaps p c"
    by (auto simp: update_coins_eq overlaps_coin_update)
  with update_coins_eq [of p cs gs] playing_tick_coins [of ks w] main_loop_coins [of inps w]
  show ?thesis by blast
qed

lemma coin_player_update:
  "player_update no_keys (coin_player\<lparr>anim_timer := n\<rparr>) (fst create_level_1_1)
     = (coin_player\<lparr>anim_timer := n + 1\<rparr>, [])"
proof -
  have a: "apply_input no_keys (coin_player\<lparr>anim_timer := n\<rparr>) = (coin_player\<lparr>anim_timer := n\<rparr>, [])"
    unfolding apply_input_def Let_def
    by (simp add: coin_player_def Player_def no_keys_def)
  have b: "physics (coin_player\<lparr>anim_timer := n\<rparr>) (fst create_level_1_1) = coin_player\<lparr>anim_timer := n\<rparr>"
    unfolding physics_def physics_horizontal_def physics_move_y_def Let_def
    by (simp add: coin_player_def Player_def create_level_1_1_def Platform_def overlaps_def GRAVITY_def)
  show ?thesis
    unfolding player_update_def Let_def
    by (simp add: a b) (simp add: coin_player_def Player_def)
qed

lemma playing_tick_platforms: "w_platforms (playing_tick ks w) = w_platforms w"
  unfolding playing_tick_def Let_def by (simp add: split_beta)

lemma coin_tick_player:
  assumes "w_player w = coin_player\<lparr>anim_timer := n\<rparr>" and "w_platforms w = fst create_level_1_1"
  shows "w_player (playing_tick no_keys w) = coin_player\<lparr>anim_timer := n + 1\<rparr>"
  unfolding playing_tick_player assms
  by (simp add: coin_player_update check_fell_off_screen_def)
    (simp add: coin_player_def Player_def GB_H_def)

lemma length_filter_coin_update:
  "length (filter (overlaps p) (map coin_update cs)) = length (filter (overlaps p) cs)"
  by (induction cs) (simp_all add: overlaps_coin_update)

lemma coin_world_simps:
  "w_player coin_world = coin_player\<lparr>anim_timer := 0\<rparr>"
  "w_platforms coin_world = fst create_level_1_1"
  "w_coins coin_world = fst (snd create_level_1_1)"
  "coins (w_game_state coin_world) = 0"
  "score (w_game_state coin_world) = 0"
  by (simp_all add: coin_world_def level_simps GameState_def coin_player_def Player_def)

lemma coin_first_tick:
  "filter (overlaps (coin_player\<lparr>anim_timer := 1\<rparr>)) (fst (snd create_level_1_1)) = [Coin 176 80]"
  "filter (\<lambda>c. \<not> overlaps (coin_player\<lparr>anim_timer := 1\<rparr>) c) (fst (snd create_level_1_1))
     = [Coin 272 64, Coin 368 48, Coin 496 80, Coin 512 80, Coin 616 96]"
  "filter (overlaps (coin_player\<lparr>anim_timer := 2\<rparr>))
     [Coin 272 64, Coin 368 48, Coin 496 80, Coin 512 80, Coin 616 96] = []"
  by (simp_all add: create_level_1_1_def Coin_def coin_player_def Player_def overlaps_def)

theorem coins_witness:
  "no_restart [([], no_keys), ([], no_keys)]
   \<and> coins (w_game_state (playing_tick no_keys coin_world)) = 1
   \<and> score (w_game_state (playing_tick no_keys coin_world)) = 200
   \<and> length (w_coins (playing_tick no_keys coin_world)) = 5
   \<and> coins (w_game_state (playing_tick no_keys (playing_tick no_keys coin_world))) = 1
   \<and> coins (w_game_state (main_loop [([], no_keys), ([], no_keys)] coin_world))
        + int (length (w_coins (main_loop [([], no_keys), ([], no_keys)] coin_world))) = 6"
proof -
  let ?w1 = "playing_tick no_keys coin_world"
  have nr: "no_restart [([], no_keys), ([], no_keys)]"
    by (simp add: no_restart_def)
  have p1: "w_player ?w1 = coin_player\<lparr>anim_timer := 1\<rparr>"
    using coin_tick_player [OF coin_world_simps(1,2)] by simp
  have p2: "w_player (playing_tick no_keys ?w1) = coin_player\<lparr>anim_timer := 2\<rparr>"
    using coin_tick_player [OF p1, unfolded playing_tick_platforms, OF coin_world_simps(2)] by simp
  note t1 = coins_are_collected_once [where ks = no_keys and w = coin_world
      and inps = "[([], no_keys), ([], no_keys)]"]
  note t2 = coins_are_collected_once [where ks = no_keys and w = ?w1]
  from t1 have c1: "w_coins ?w1 =
      map coin_update [Coin 272 64, Coin 368 48, Coin 496 80, Coin 512 80, Coin 616 96]"
    and a1: "coins (w_game_state ?w1) = 1" and s1: "score (w_game_state ?w1) = 200"
    unfolding p1 coin_world_simps coin_first_tick by simp_all
  from t2 have a2: "coins (w_game_state (playing_tick no_keys ?w1)) = 1"
    unfolding p2 c1 a1 length_filter_coin_update coin_first_tick by simp
  from t1 nr have m: "coins (w_game_state (main_loop [([], no_keys), ([], no_keys)] coin_world))
        + int (length (w_coins (main_loop [([], no_keys), ([], no_keys)] coin_world))) = 6"
    unfolding coin_world_simps by (simp add: create_level_1_1_def)
  from nr a1 s1 c1 a2 m show ?thesis by simp
qed

section \<open>The countdown (claim C4)\<close>

lemma main_loop_snoc:
  "main_loop (inps @ [inp]) w =
     (if w_running (main_loop inps w) then main_iteration inp (main_loop inps w)
      else main_loop inps w)"
  by (induction inps arbitrary: w) simp_all

lemma update_game_timer_eq:
  "update_game_timer gs =
     (if (timer gs + 1) mod 60 = 0
      then (if time gs - 1 \<le> 0
            then (gs\<lparr>timer := timer gs + 1, time := time gs - 1, state := GAME_OVER\<rparr>, [SfxGameover])
            else (gs\<lparr>timer := timer gs + 1, time := time gs - 1\<rparr>, []))
      else (gs\<lparr>timer := timer gs + 1\<rparr>, []))"
  by (simp add: update_game_timer_def Let_def)

lemma playing_tick_quiet:
  assumes "tick_is_quiet ks w"
  shows "state (w_game_state (playing_tick ks w)) = state (fst (update_game_timer (w_game_state w)))
    \<and> time (w_game_state (playing_tick ks w)) = time (fst (update_game_timer (w_game_state w)))
    \<and> timer (w_game_state (playing_tick ks w)) = timer (fst (update_game_timer (w_game_state w)))
    \<and> w_running (playing_tick ks w) = w_running w
    \<and> (\<exists>rest. w_sounds (playing_tick ks w) = w_sounds w @ snd (update_game_timer (w_game_state w)) @ rest)"
proof -
  obtain gs1 snd1 where t: "update_game_timer (w_game_state w) = (gs1, snd1)"
    by (cases "update_game_timer (w_game_state w)")
  obtain p1 snd2 where u: "player_update ks (w_player w) (w_platforms w) = (p1, snd2)"
    by (cases "player_update ks (w_player w) (w_platforms w)")
  from assms u have q: "\<not> y p1 > GB_H" "\<not> overlaps p1 (w_goal w)"
    by (simp_all add: tick_is_quiet_def)
  from q(1) have f: "check_fell_off_screen (gs1, p1, w_camera w) = ((gs1, p1, w_camera w), [])"
    by (simp add: check_fell_off_screen_def)
  obtain cs1 gs3 snd4 where c: "update_coins p1 (w_coins w) gs1 = (cs1, gs3, snd4)"
    by (cases "update_coins p1 (w_coins w) gs1") auto
  from q(2) have g: "check_goal p1 (w_goal w) gs3 = (gs3, [])"
    by (simp add: check_goal_def)
  note tick = playing_tick_parts [OF t u f c g]
  from update_coins_frame [OF c] t show ?thesis
    by (simp add: tick)
qed

lemma div_step_hit:
  fixes a :: int
  assumes "(a + 1) mod 60 = 0"
  shows "(a + 1) div 60 = a div 60 + 1"
proof -
  have f: "a = 60 * (a div 60) + a mod 60" by simp
  have r: "0 \<le> a mod 60" "a mod 60 < 60" by simp_all
  have "a + 1 = 60 * ((a + 1) div 60) + (a + 1) mod 60" by simp
  with assms have "a + 1 = 60 * ((a + 1) div 60)" by simp
  with f r show ?thesis by linarith
qed

lemma div_step_miss:
  fixes a :: int
  assumes "(a + 1) mod 60 \<noteq> 0"
  shows "(a + 1) div 60 = a div 60"
proof -
  have f: "a = 60 * (a div 60) + a mod 60" by simp
  have r: "0 \<le> a mod 60" "a mod 60 < 60" by simp_all
  have g: "a + 1 = 60 * ((a + 1) div 60) + (a + 1) mod 60" by simp
  have s: "0 \<le> (a + 1) mod 60" "(a + 1) mod 60 < 60" by simp_all
  from f g r s assms show ?thesis by linarith
qed

lemma div_small:
  fixes a :: int
  assumes "0 \<le> a" "a < 24000"
  shows "a div 60 < 400"
proof -
  have f: "a = 60 * (a div 60) + a mod 60" by simp
  have r: "0 \<le> a mod 60" by simp
  from f r assms show ?thesis by linarith
qed

lemma timer_step:
  fixes n :: nat
  shows "(int n + 1) mod 60 = 0 \<Longrightarrow> 400 - int n div 60 - 1 = 400 - int (Suc n) div 60"
    and "(int n + 1) mod 60 \<noteq> 0 \<Longrightarrow> 400 - int n div 60 = 400 - int (Suc n) div 60"
    and "Suc n < 24000 \<Longrightarrow> \<not> 400 - int (Suc n) div 60 \<le> 0"
proof -
  have e: "int (Suc n) = int n + 1" by simp
  show "(int n + 1) mod 60 = 0 \<Longrightarrow> 400 - int n div 60 - 1 = 400 - int (Suc n) div 60"
    unfolding e using div_step_hit [of "int n"] by linarith
  show "(int n + 1) mod 60 \<noteq> 0 \<Longrightarrow> 400 - int n div 60 = 400 - int (Suc n) div 60"
    unfolding e using div_step_miss [of "int n"] by linarith
  show "Suc n < 24000 \<Longrightarrow> \<not> 400 - int (Suc n) div 60 \<le> 0"
    using div_small [of "int (Suc n)"] by linarith
qed

text \<open>
  Claim C4. Start in \<open>PLAYING\<close> with \<open>timer = 0\<close> and \<open>time = 400\<close>, and let 24000 frames
  without events follow in which the player neither falls off the screen nor reaches the
  goal. Then after \<open>n\<close> of these frames \<open>timer = n\<close> and \<open>time = 400 - n div 60\<close> (the
  accumulator counts every tick, the clock every sixtieth), the state is still \<open>PLAYING\<close>
  for every \<open>n < 24000\<close>, and after exactly 24000 frames \<open>time = 0\<close>, the state is
  \<open>GAME_OVER\<close> and the last frame has played the game-over effect.
\<close>

theorem time_runs_out_after_24000_ticks:
  assumes "state (w_game_state w) = PLAYING"
    and "timer (w_game_state w) = 0"
    and "time (w_game_state w) = 400"
    and "w_running w"
    and "length kss = 24000"
    and "\<forall>n < 24000. tick_is_quiet (kss ! n) (main_loop (ticks (take n kss)) w)"
  shows "(\<forall>n \<le> 24000.
            timer (w_game_state (main_loop (ticks (take n kss)) w)) = int n
            \<and> time (w_game_state (main_loop (ticks (take n kss)) w)) = 400 - int n div 60)
    \<and> (\<forall>n < 24000. state (w_game_state (main_loop (ticks (take n kss)) w)) = PLAYING)
    \<and> time (w_game_state (main_loop (ticks kss) w)) = 0
    \<and> state (w_game_state (main_loop (ticks kss) w)) = GAME_OVER
    \<and> (\<exists>rest. w_sounds (main_loop (ticks kss) w) =
          w_sounds (main_loop (ticks (take 23999 kss)) w) @ SfxGameover # rest)"
proof -
  let ?W = "\<lambda>n. main_loop (ticks (take n kss)) w"
  have step: "?W (Suc n) = playing_tick (kss ! n) (?W n)"
    if "n < 24000" "w_running (?W n)" "state (w_game_state (?W n)) = PLAYING" for n
  proof -
    from that(1) assms(5) have "take (Suc n) kss = take n kss @ [kss ! n]"
      by (simp add: take_Suc_conv_app_nth)
    then have "?W (Suc n) = main_loop (ticks (take n kss) @ [([], kss ! n)]) w"
      by (simp add: ticks_def)
    also have "\<dots> = main_iteration ([], kss ! n) (?W n)"
      using that(2) by (simp add: main_loop_snoc)
    also have "\<dots> = playing_tick (kss ! n) (?W n)"
      using that(3) by (simp add: main_iteration_def)
    finally show ?thesis .
  qed
  have inv: "w_running (?W n)
      \<and> timer (w_game_state (?W n)) = int n
      \<and> time (w_game_state (?W n)) = 400 - int n div 60
      \<and> (n < 24000 \<longrightarrow> state (w_game_state (?W n)) = PLAYING)
      \<and> (n = 24000 \<longrightarrow> state (w_game_state (?W n)) = GAME_OVER)" if "n \<le> 24000" for n
    using that
  proof (induction n)
    case 0
    then show ?case using assms(1-4) by (simp add: ticks_def)
  next
    case (Suc n)
    then have n: "n < 24000" and ih: "w_running (?W n)" "timer (w_game_state (?W n)) = int n"
      "time (w_game_state (?W n)) = 400 - int n div 60" "state (w_game_state (?W n)) = PLAYING"
      by simp_all
    from assms(6) n have q: "tick_is_quiet (kss ! n) (?W n)" by blast
    note s = step [OF n ih(1) ih(4)]
    note t = playing_tick_quiet [OF q]
    let ?gs = "w_game_state (?W n)"
    have r: "w_running (?W (Suc n))"
      using t ih(1) by (simp add: s)
    have tm: "timer (w_game_state (?W (Suc n))) = int (Suc n)"
      using t ih(2) by (simp add: s update_game_timer_eq)
    have ti: "time (w_game_state (?W (Suc n))) = 400 - int (Suc n) div 60"
    proof (cases "(int n + 1) mod 60 = 0")
      case True
      then show ?thesis
        using t ih(2,3) timer_step(1) [OF True] by (simp add: s update_game_timer_eq)
    next
      case False
      then show ?thesis
        using t ih(2,3) timer_step(2) [OF False] by (simp add: s update_game_timer_eq)
    qed
    have st1: "state (w_game_state (?W (Suc n))) = PLAYING" if "Suc n < 24000"
    proof -
      have "state (fst (update_game_timer ?gs)) = PLAYING"
      proof (cases "(int n + 1) mod 60 = 0")
        case True
        with timer_step(1) [OF True] timer_step(3) [OF that] ih(2,3,4) show ?thesis
          by (simp add: update_game_timer_eq)
      next
        case False
        with ih(2,4) show ?thesis by (simp add: update_game_timer_eq)
      qed
      with t show ?thesis by (simp add: s)
    qed
    have st2: "state (w_game_state (?W (Suc n))) = GAME_OVER" if "Suc n = 24000"
    proof -
      from that have "int n = 23999" by simp
      with ih(2,3) have "state (fst (update_game_timer ?gs)) = GAME_OVER"
        by (simp add: update_game_timer_eq)
      with t show ?thesis by (simp add: s)
    qed
    from r tm ti st1 st2 show ?case by blast
  qed
  have a: "\<forall>n \<le> 24000. timer (w_game_state (?W n)) = int n
      \<and> time (w_game_state (?W n)) = 400 - int n div 60"
    using inv by blast
  have b: "\<forall>n < 24000. state (w_game_state (?W n)) = PLAYING"
    using inv by simp
  have full: "?W 24000 = main_loop (ticks kss) w"
    using assms(5) by simp
  have c: "time (w_game_state (main_loop (ticks kss) w)) = 0"
    "state (w_game_state (main_loop (ticks kss) w)) = GAME_OVER"
    using inv [of 24000] by (simp_all add: full)
  have d: "\<exists>rest. w_sounds (main_loop (ticks kss) w) =
          w_sounds (?W 23999) @ SfxGameover # rest"
  proof -
    from inv [of 23999] have ih: "w_running (?W 23999)" "timer (w_game_state (?W 23999)) = 23999"
      "time (w_game_state (?W 23999)) = 1" "state (w_game_state (?W 23999)) = PLAYING"
      by simp_all
    from assms(6) have q: "tick_is_quiet (kss ! 23999) (?W 23999)" by simp
    have "?W (Suc 23999) = playing_tick (kss ! 23999) (?W 23999)"
      by (rule step) (simp_all add: ih)
    then have s: "main_loop (ticks kss) w = playing_tick (kss ! 23999) (?W 23999)"
      using full by simp
    have "snd (update_game_timer (w_game_state (?W 23999))) = [SfxGameover]"
      using ih(2,3) by (simp add: update_game_timer_eq)
    with playing_tick_quiet [OF q] show ?thesis
      by (simp add: s)
  qed
  from a b c d show ?thesis by blast
qed

subsection \<open>A run in which no key is held\<close>

lemma idle_input:
  assumes "idle_player p"
  shows "apply_input no_keys p = (p, [])"
  using assms unfolding apply_input_def Let_def idle_player_def
  by (simp add: no_keys_def)

lemma idle_find:
  assumes "x (m::player) = 32" "width m = 8" "height m = 16"
  shows "find (overlaps m) (fst create_level_1_1) =
     (if y m < 144 \<and> 112 < y m then Some (Platform 0 128 200 16) else None)"
  by (simp add: create_level_1_1_def Platform_def overlaps_def assms)

lemma physics_fields:
  "width (physics p pls) = width p \<and> height (physics p pls) = height p
   \<and> alive (physics p pls) = alive p"
  by (simp add: physics_def physics_resolve_y_find physics_move_y_def physics_horizontal_find
      split: option.splits)

lemma idle_horizontal:
  assumes "idle_player p"
  shows "x (physics_horizontal p pls) = 32 \<and> vel_x (physics_horizontal p pls) = 0
    \<and> y (physics_horizontal p pls) = y p \<and> vel_y (physics_horizontal p pls) = vel_y p + GRAVITY
    \<and> width (physics_horizontal p pls) = 8 \<and> height (physics_horizontal p pls) = 16"
  using assms unfolding idle_player_def
  by (simp add: physics_horizontal_find split: option.splits)

lemma idle_physics_eq:
  assumes "idle_player p"
  shows "physics p (fst create_level_1_1) =
      (let m = physics_move_y (physics_horizontal p (fst create_level_1_1))
       in if y m < 144 \<and> 112 < y m
          then (if vel_y m > 0 then m\<lparr>y := 112, vel_y := 0, grounded := True\<rparr>
                else if vel_y m < 0 then m\<lparr>y := 144, vel_y := 0\<rparr> else m)
          else m)"
proof -
  let ?h = "physics_horizontal p (fst create_level_1_1)"
  let ?m = "physics_move_y ?h"
  note h = idle_horizontal [OF assms, of "fst create_level_1_1"]
  have m: "x ?m = 32" "width ?m = 8" "height ?m = 16"
    using h by (simp_all add: physics_move_y_def)
  show ?thesis
    unfolding physics_def physics_resolve_y_find idle_find [OF m] Let_def
    by (simp add: Platform_def m)
qed

lemma idle_trajectory_step:
  assumes "(v, yy) \<in> set idle_trajectory"
  shows "0 < v + 1 / 4
    \<and> (if yy + (v + 1 / 4) < 144 \<and> 112 < yy + (v + 1 / 4) then (0, 112)
        else (v + 1 / 4, yy + (v + 1 / 4))) \<in> set idle_trajectory
    \<and> (if yy + (v + 1 / 4) < 144 \<and> 112 < yy + (v + 1 / 4) then 112 else yy + (v + 1 / 4)) \<le> 112"
proof -
  from assms have "(v = 0 \<and> yy = 100) \<or> (v = 1 / 4 \<and> yy = 401 / 4) \<or> (v = 1 / 2 \<and> yy = 403 / 4)
      \<or> (v = 3 / 4 \<and> yy = 203 / 2) \<or> (v = 1 \<and> yy = 205 / 2) \<or> (v = 5 / 4 \<and> yy = 415 / 4)
      \<or> (v = 3 / 2 \<and> yy = 421 / 4) \<or> (v = 7 / 4 \<and> yy = 107) \<or> (v = 2 \<and> yy = 109)
      \<or> (v = 9 / 4 \<and> yy = 445 / 4) \<or> (v = 0 \<and> yy = 112)"
    unfolding idle_trajectory_def by simp
  then show ?thesis
    by (elim disjE conjE) (simp_all add: idle_trajectory_def)
qed

lemma idle_physics:
  assumes "idle_player p"
  shows "idle_player (physics p (fst create_level_1_1)) \<and> y (physics p (fst create_level_1_1)) \<le> 112"
proof -
  let ?m = "physics_move_y (physics_horizontal p (fst create_level_1_1))"
  let ?q = "physics p (fst create_level_1_1)"
  note h = idle_horizontal [OF assms, of "fst create_level_1_1"]
  have m: "x ?m = 32" "width ?m = 8" "height ?m = 16" "vel_x ?m = 0"
    "y ?m = y p + (vel_y p + 1 / 4)" "vel_y ?m = vel_y p + 1 / 4"
    using h by (simp_all add: physics_move_y_def GRAVITY_def)
  from assms have t: "(vel_y p, y p) \<in> set idle_trajectory" and l: "alive p"
    by (simp_all add: idle_player_def)
  note s = idle_trajectory_step [OF t]
  from s have pos: "0 < vel_y ?m" by (simp add: m)
  have q: "?q = (if y ?m < 144 \<and> 112 < y ?m then ?m\<lparr>y := 112, vel_y := 0, grounded := True\<rparr> else ?m)"
    using idle_physics_eq [OF assms] pos by (simp add: Let_def)
  have f: "x ?q = 32" "vel_x ?q = 0" "width ?q = 8" "height ?q = 16"
    by (simp_all add: q m)
  have v: "(vel_y ?q, y ?q) =
      (if y p + (vel_y p + 1 / 4) < 144 \<and> 112 < y p + (vel_y p + 1 / 4) then (0, 112)
       else (vel_y p + 1 / 4, y p + (vel_y p + 1 / 4)))"
    by (simp add: q m)
  have y: "y ?q = (if y p + (vel_y p + 1 / 4) < 144 \<and> 112 < y p + (vel_y p + 1 / 4) then 112
       else y p + (vel_y p + 1 / 4))"
    by (simp add: q m)
  from s have "(vel_y ?q, y ?q) \<in> set idle_trajectory"
    by (simp only: v)
  moreover from s have "y ?q \<le> 112"
    by (simp only: y)
  ultimately show ?thesis using f l
    by (simp add: idle_player_def physics_fields)
qed

lemma player_update_fields:
  "x (fst (player_update ks p pls)) = x (physics (fst (apply_input ks p)) pls)
   \<and> y (fst (player_update ks p pls)) = y (physics (fst (apply_input ks p)) pls)
   \<and> width (fst (player_update ks p pls)) = width (physics (fst (apply_input ks p)) pls)
   \<and> height (fst (player_update ks p pls)) = height (physics (fst (apply_input ks p)) pls)
   \<and> vel_x (fst (player_update ks p pls)) = vel_x (physics (fst (apply_input ks p)) pls)
   \<and> vel_y (fst (player_update ks p pls)) = vel_y (physics (fst (apply_input ks p)) pls)
   \<and> alive (fst (player_update ks p pls)) = alive (physics (fst (apply_input ks p)) pls)"
  unfolding player_update_def Let_def
  by (simp add: split_beta)

lemma idle_update:
  assumes "idle_player p"
  shows "idle_player (fst (player_update no_keys p (fst create_level_1_1)))
    \<and> y (fst (player_update no_keys p (fst create_level_1_1))) \<le> 112"
  using idle_physics [OF assms]
  by (simp add: idle_player_def player_update_fields idle_input [OF assms])

lemma idle_quiet:
  assumes "idle_world w"
  shows "tick_is_quiet no_keys w"
proof -
  from assms have p: "idle_player (w_player w)" and l: "w_platforms w = fst create_level_1_1"
    and g: "w_goal w = Goal 800 96"
    by (simp_all add: idle_world_def)
  from idle_update [OF p] show ?thesis
    unfolding tick_is_quiet_def Let_def l g
    by (simp add: idle_player_def overlaps_def Goal_def GB_H_def)
qed

lemma playing_tick_goal: "w_goal (playing_tick ks w) = w_goal w"
  unfolding playing_tick_def Let_def by (simp add: split_beta)

lemma idle_tick:
  assumes "idle_world w"
  shows "idle_world (playing_tick no_keys w)"
proof -
  from assms have p: "idle_player (w_player w)" and l: "w_platforms w = fst create_level_1_1"
    and g: "w_goal w = Goal 800 96"
    by (simp_all add: idle_world_def)
  from idle_update [OF p]
  have "w_player (playing_tick no_keys w) = fst (player_update no_keys (w_player w) (fst create_level_1_1))"
    unfolding playing_tick_player l
    by (simp add: check_fell_off_screen_def GB_H_def)
  with idle_update [OF p] l g show ?thesis
    by (simp add: idle_world_def playing_tick_platforms playing_tick_goal)
qed

lemma idle_iteration:
  assumes "idle_world w"
  shows "idle_world (main_iteration ([], no_keys) w)"
  using assms idle_tick [OF assms] by (simp add: main_iteration_def)

lemma idle_run:
  "idle_world w \<Longrightarrow> idle_world (main_loop (replicate n ([], no_keys)) w)"
  by (induction n arbitrary: w) (simp_all add: idle_iteration)

lemma fresh_start_simps:
  "state (w_game_state fresh_start_world) = PLAYING"
  "timer (w_game_state fresh_start_world) = 0"
  "time (w_game_state fresh_start_world) = 400"
  "w_running fresh_start_world"
  "idle_world fresh_start_world"
  by (simp_all add: fresh_start_world_def level_simps GameState_def reset_level_def
      create_level_1_1_def idle_world_def idle_player_def idle_trajectory_def Player_def)

text \<open>With no key ever held after a fresh start, the clock does run out.\<close>

theorem time_runs_out_witness:
  "state (w_game_state fresh_start_world) = PLAYING
   \<and> timer (w_game_state fresh_start_world) = 0
   \<and> time (w_game_state fresh_start_world) = 400
   \<and> w_running fresh_start_world
   \<and> length (replicate 24000 no_keys) = 24000
   \<and> time (w_game_state (main_loop (ticks (replicate 24000 no_keys)) fresh_start_world)) = 0
   \<and> state (w_game_state (main_loop (ticks (replicate 24000 no_keys)) fresh_start_world)) = GAME_OVER
   \<and> state (w_game_state (main_loop (ticks (replicate 23999 no_keys)) fresh_start_world)) = PLAYING
   \<and> time (w_game_state (main_loop (ticks (replicate 23999 no_keys)) fresh_start_world)) = 1"
proof -
  have len: "length (replicate 24000 no_keys) = 24000" by simp
  have q: "\<forall>n < 24000. tick_is_quiet (replicate 24000 no_keys ! n)
      (main_loop (ticks (take n (replicate 24000 no_keys))) fresh_start_world)"
  proof (intro allI impI)
    fix n :: nat
    assume n: "n < 24000"
    then have "ticks (take n (replicate 24000 no_keys)) = replicate n ([], no_keys)"
      by (simp add: ticks_def min_def)
    with n idle_run [OF fresh_start_simps(5), of n]
    show "tick_is_quiet (replicate 24000 no_keys ! n)
      (main_loop (ticks (take n (replicate 24000 no_keys))) fresh_start_world)"
      by (simp add: idle_quiet)
  qed
  note t = time_runs_out_after_24000_ticks [OF fresh_start_simps(1-4) len q]
  have e: "take 23999 (replicate 24000 no_keys) = replicate 23999 no_keys"
    by (simp add: min_def)
  from t have "state (w_game_state (main_loop (ticks (take 23999 (replicate 24000 no_keys))) fresh_start_world)) = PLAYING"
    "time (w_game_state (main_loop (ticks (take 23999 (replicate 24000 no_keys))) fresh_start_world))
       = 400 - int 23999 div 60"
    by simp_all
  then have "state (w_game_state (main_loop (ticks (replicate 23999 no_keys)) fresh_start_world)) = PLAYING"
    "time (w_game_state (main_loop (ticks (replicate 23999 no_keys)) fresh_start_world)) = 1"
    unfolding e by simp_all
  with t fresh_start_simps(1-4) show ?thesis
    by simp
qed

end
